theory Spec2Isabelle
  imports Main "HOL-Library.Sublist" "HOL-Library.AList"
begin

section \<open>JavaScript strings and Node's POSIX path module\<close>

text \<open>
  Paths are JavaScript strings, here \<open>string\<close>; \<open>path.sep\<close> is the POSIX separator.
  The functions below embed the library calls that \<open>src/lib/build.ts\<close> makes on
  strings and paths: \<open>String.prototype.replace\<close> with a string pattern (first
  occurrence only), \<open>split\<close>/\<open>join\<close>, \<open>substring(0, n)\<close>, \<open>endsWith\<close>,
  \<open>path.extname\<close>, \<open>path.join\<close> (with \<open>path.normalize\<close>) and \<open>path.relative\<close>.
\<close>

definition path_sep :: char where
  "path_sep = CHR ''/''"

text \<open>\<open>s.replace(pat, rep)\<close> for a string \<open>pat\<close>: only the first occurrence is replaced
  (the replacement strings used by the build contain no \<open>$\<close> pattern).\<close>

fun replace_first :: "string \<Rightarrow> string \<Rightarrow> string \<Rightarrow> string" where
  "replace_first pat rep [] = (if pat = [] then rep else [])"
| "replace_first pat rep (c # cs) =
     (if prefix pat (c # cs) then rep @ drop (length pat) (c # cs)
      else c # replace_first pat rep cs)"

text \<open>\<open>s.split(sep)\<close> for a one-character separator: never empty, \<open>"".split("/") = [""]\<close>.\<close>

fun split_on :: "char \<Rightarrow> string \<Rightarrow> string list" where
  "split_on d [] = [[]]"
| "split_on d (c # cs) =
     (if c = d then [] # split_on d cs
      else (case split_on d cs of [] \<Rightarrow> [[c]] | r # rs \<Rightarrow> (c # r) # rs))"

text \<open>\<open>parts.join(sep)\<close>.\<close>

fun join_with :: "string \<Rightarrow> string list \<Rightarrow> string" where
  "join_with sep [] = []"
| "join_with sep [x] = x"
| "join_with sep (x # y # ys) = x @ sep @ join_with sep (y # ys)"

text \<open>\<open>s.substring(0, s.length - n)\<close>: a negative end is clamped to 0, as \<open>nat\<close>
  subtraction does.\<close>

definition drop_last_n :: "nat \<Rightarrow> string \<Rightarrow> string" where
  "drop_last_n n s = take (length s - n) s"

definition endsWith :: "string \<Rightarrow> string \<Rightarrow> bool" where
  "endsWith s suf = suffix suf s"

text \<open>\<open>path.basename\<close> without extension argument: the last portion of the path,
  trailing separators ignored.\<close>

definition path_basename :: "string \<Rightarrow> string" where
  "path_basename p =
     rev (takeWhile (\<lambda>c. c \<noteq> path_sep) (dropWhile (\<lambda>c. c = path_sep) (rev p)))"

text \<open>\<open>path.extname\<close>: from the last dot of the last portion to its end; empty when the
  portion has no dot, when its only dot is its first character, and for \<open>..\<close>.\<close>

definition path_extname :: "string \<Rightarrow> string" where
  "path_extname p =
     (let b = path_basename p;
          ext = rev (takeWhile (\<lambda>c. c \<noteq> CHR ''.'') (rev b));
          stem = rev (drop 1 (dropWhile (\<lambda>c. c \<noteq> CHR ''.'') (rev b)))
      in if CHR ''.'' \<in> set b then
           (if stem = [] then [] else if b = ''..'' then [] else CHR ''.'' # ext)
         else [])"

text \<open>\<open>normalizeString\<close> of Node's path module, on the segments of the path: empty and
  \<open>.\<close> segments are skipped, \<open>..\<close> removes the segment before it, or stays when there
  is none and the path is relative (\<open>allowAboveRoot\<close>). The accumulator holds the kept segments,
  last first.\<close>

fun normalizeString :: "bool \<Rightarrow> string list \<Rightarrow> string list \<Rightarrow> string list" where
  "normalizeString allowAboveRoot acc [] = rev acc"
| "normalizeString allowAboveRoot acc (c # cs) =
     (if c = [] \<or> c = ''.'' then normalizeString allowAboveRoot acc cs
      else if c = ''..'' then
        (case acc of
           [] \<Rightarrow> normalizeString allowAboveRoot (if allowAboveRoot then [''..''] else []) cs
         | a # as \<Rightarrow>
             if a = ''..'' then normalizeString allowAboveRoot (if allowAboveRoot then ''..'' # acc else acc) cs
             else normalizeString allowAboveRoot as cs)
      else normalizeString allowAboveRoot (c # acc) cs)"

definition isAbsolute :: "string \<Rightarrow> bool" where
  "isAbsolute p = (case p of [] \<Rightarrow> False | c # _ \<Rightarrow> c = path_sep)"

definition path_normalize :: "string \<Rightarrow> string" where
  "path_normalize p =
     (if p = [] then ''.''
      else
        (let trailing = (last p = path_sep);
             body = join_with [path_sep] (normalizeString (\<not> isAbsolute p) [] (split_on path_sep p))
         in if body = [] then
              (if isAbsolute p then [path_sep] else if trailing then ''./'' else ''.'')
            else (if isAbsolute p then [path_sep] else []) @ body
                 @ (if trailing then [path_sep] else [])))"

text \<open>\<open>path.join(...args)\<close>: the non-empty arguments joined by the separator, then
  normalised; \<open>.\<close> when nothing is left.\<close>

definition path_join :: "string list \<Rightarrow> string" where
  "path_join args = path_normalize (join_with [path_sep] (filter (\<lambda>a. a \<noteq> []) args))"

text \<open>
  \<open>path.relative(from, to)\<close>. Node resolves both paths against the working directory and
  compares their segments; the model compares the segments of the two paths as given,
  which is the same result when both are absolute or both are relative without leading
  \<open>..\<close> segments (every call of the build passes a directory and a file enumerated
  under it, or the source root and such a file).
\<close>

fun strip_common :: "string list \<Rightarrow> string list \<Rightarrow> string list \<times> string list" where
  "strip_common (a # as) (b # bs) = (if a = b then strip_common as bs else (a # as, b # bs))"
| "strip_common as bs = (as, bs)"

definition path_segments :: "string \<Rightarrow> string list" where
  "path_segments p = normalizeString (\<not> isAbsolute p) [] (split_on path_sep p)"

definition path_relative :: "string \<Rightarrow> string \<Rightarrow> string" where
  "path_relative frm to =
     (case strip_common (path_segments frm) (path_segments to) of
        (fs, ts) \<Rightarrow> join_with [path_sep] (map (\<lambda>_. ''..'') fs @ ts))"

section \<open>Data model of \<open>src/lib/build.ts\<close>\<close>

text \<open>
  A JSON object read from or written to disk (\<open>aliases.json\<close>, \<open>ipfs.json\<close>) is a map
  from keys to string values, as the declared type \<open>{ [key: string]: string }\<close> says.
  Property lookup is lookup of an own key; the members that every JavaScript object
  inherits from \<open>Object.prototype\<close> are not part of a lookup. The one inherited member
  that an assignment reaches, the setter of \<open>__proto__\<close>, is part of \<open>Object.assign\<close>
  below.
\<close>

type_synonym json_obj = "string \<rightharpoonup> string"

text \<open>The file system is flat: the files that exist, each under its normalised path and
  with its content, in the order in which a directory walk meets them. Reading fails on a
  missing file; writing a file creates or replaces it and does not fail.\<close>

type_synonym fs = "(string \<times> string) list"

datatype error =
    TypeError string
  | FsError string
  | ConfigError string
  | PublishError string
  | TranspileError string
  | DataError string

text \<open>The resolved configuration, with the fields the build reads. A field that the
  build reads through \<open>?.\<close> or \<open>!\<close> may be undefined: \<open>None\<close>.\<close>

record ipfs_config =
  uploadApi :: "string option"
  uploadApiHeaders :: "(string \<times> string) list option"
  gateway :: "string option"

record accounts_config =
  deploy :: "string option"

record base_config =
  format :: "string option"
  aliases :: "string list option"
  ipfs :: "ipfs_config option"
  accounts :: "accounts_config option"

record uploadToIPFSOptions =
  uploadAPI_url :: "string option"
  uploadAPI_headers :: "(string \<times> string) list option"

record log =
  log_body :: string
  source_line :: "nat option"
  source_file :: "string option"

record transpiled =
  code :: string
  logs :: "log list"

record evalCustomSyntaxParams =
  p_config :: base_config
  p_modules :: "string list"
  p_ipfsMap :: json_obj
  p_ipfsGateway :: "string option"
  p_aliases :: json_obj

record transpileOptions =
  compileTypeScript :: bool
  o_format :: "string option"

text \<open>
  The collaborators that \<open>build.ts\<close> imports and that are not part of the orchestrator:
  the configuration reader, the JSON codec behind \<open>readJson\<close>/\<open>writeJson\<close>, the
  content-store client, the transpiler and the metadata generator. They are parameters
  of the build. \<open>parseJson\<close> gives \<open>None\<close> for a text that is no JSON object (a text
  that does not parse, and the falsy values for which \<open>|| {}\<close> and \<open>Object.assign\<close>
  behave as for an empty object). Of \<open>generateData\<close> only success or failure is kept.
\<close>

record env =
  readConfig :: "fs \<Rightarrow> string \<Rightarrow> string \<Rightarrow> error + base_config"
  parseJson :: "string \<Rightarrow> json_obj option"
  stringifyJson :: "json_obj \<Rightarrow> string"
  uploadToIPFS :: "fs \<Rightarrow> string \<Rightarrow> uploadToIPFSOptions \<Rightarrow> error + string"
  transpileJS :: "string \<Rightarrow> evalCustomSyntaxParams \<Rightarrow> transpileOptions \<Rightarrow> error + transpiled"
  generateData :: "fs \<Rightarrow> string \<Rightarrow> string \<Rightarrow> string option \<Rightarrow> error option"

datatype kind = Module | Widget

text \<open>
  Every call that leaves the orchestrator is recorded, in order. A unit's calls carry
  the batch they were made from; a directory walk carries the files it gave, a
  transpile call the error it raised, if any.
\<close>

datatype event =
    E_readConfig string string
  | E_readJson string
  | E_loopThroughFiles string "string list"
  | E_uploadToIPFS string
  | E_writeJson string
  | E_copy string string
  | E_readFile kind string
  | E_transpileJS kind string "error option"
  | E_outputFile kind string
  | E_remove string
  | E_generateData string string

record world =
  files :: fs
  calls :: "event list"

definition emit :: "event \<Rightarrow> world \<Rightarrow> world" where
  "emit e w = w\<lparr>calls := calls w @ [e]\<rparr>"

text \<open>JavaScript truthiness of \<open>obj[key]\<close> for a string-valued object: a missing key
  (\<open>undefined\<close>) and the empty string are falsy.\<close>

definition truthy :: "string option \<Rightarrow> bool" where
  "truthy v = (case v of None \<Rightarrow> False | Some s \<Rightarrow> s \<noteq> [])"

section \<open>File-system helpers of \<open>@/lib/utils/fs\<close>\<close>

text \<open>Modelled from the spec: \<open>readJson\<close> of \<open>@/lib/utils/fs\<close> is not under \<open>src/\<close>.
  It loads a JSON file and fails on a missing file or a parse error.\<close>

definition readJson :: "env \<Rightarrow> string \<Rightarrow> world \<Rightarrow> (error + json_obj) \<times> world" where
  "readJson env p w =
     ((case map_of (files w) p of
         None \<Rightarrow> Inl (FsError p)
       | Some text \<Rightarrow> (case parseJson env text of None \<Rightarrow> Inl (FsError p) | Some obj \<Rightarrow> Inr obj)),
      emit (E_readJson p) w)"

text \<open>\<open>readJson(p).catch(() => ({}))\<close>, as both callers write it.\<close>

definition readJson_catch :: "env \<Rightarrow> string \<Rightarrow> world \<Rightarrow> json_obj \<times> world" where
  "readJson_catch env p w =
     (case readJson env p w of
        (Inl e, w') \<Rightarrow> (Map.empty, w')
      | (Inr obj, w') \<Rightarrow> (obj, w'))"

text \<open>A file is inside a directory when its path continues the directory's path after a
  separator.\<close>

definition inside_dir :: "string \<Rightarrow> string \<Rightarrow> bool" where
  "inside_dir dir p = (prefix (dir @ [path_sep]) p \<and> length dir + 1 < length p)"

text \<open>Modelled from the spec: \<open>loopThroughFiles\<close> of \<open>@/lib/utils/fs\<close> is not under
  \<open>src/\<close>. It recursively enumerates all files under a root and hands each file's path
  to the callback; a root that does not exist has no files.\<close>

definition loopThroughFiles :: "string \<Rightarrow> world \<Rightarrow> string list \<times> world" where
  "loopThroughFiles dir w =
     (case filter (inside_dir dir) (map fst (files w)) of
        found \<Rightarrow> (found, emit (E_loopThroughFiles dir found) w))"

text \<open>Modelled from the spec: \<open>readFile\<close> of \<open>@/lib/utils/fs\<close> is not under \<open>src/\<close>.
  It reads a unit's raw content and fails on a missing file. The batch the call is made
  from is kept for the record of calls only.\<close>

definition readFile :: "kind \<Rightarrow> string \<Rightarrow> world \<Rightarrow> (error + string) \<times> world" where
  "readFile k p w =
     ((case map_of (files w) p of None \<Rightarrow> Inl (FsError p) | Some text \<Rightarrow> Inr text),
      emit (E_readFile k p) w)"

text \<open>Modelled from the spec: \<open>outputFile\<close> of \<open>@/lib/utils/fs\<close> is not under \<open>src/\<close>.
  It writes the artifact's code to the output path, creating or replacing the file.\<close>

definition outputFile :: "kind \<Rightarrow> string \<Rightarrow> string \<Rightarrow> world \<Rightarrow> world" where
  "outputFile k p text w = emit (E_outputFile k p) (w\<lparr>files := AList.update p text (files w)\<rparr>)"

text \<open>Modelled from the spec: \<open>writeJson\<close> of \<open>@/lib/utils/fs\<close> is not under \<open>src/\<close>.
  It persists an object as JSON text, creating or replacing the file.\<close>

definition writeJson :: "env \<Rightarrow> string \<Rightarrow> json_obj \<Rightarrow> world \<Rightarrow> world" where
  "writeJson env p obj w =
     emit (E_writeJson p) (w\<lparr>files := AList.update p (stringifyJson env obj) (files w)\<rparr>)"

text \<open>Modelled from the spec: \<open>copy\<close> of \<open>@/lib/utils/fs\<close> is not under \<open>src/\<close>. It
  mirrors a file's content to another path and fails when the file does not exist.\<close>

definition copy :: "string \<Rightarrow> string \<Rightarrow> world \<Rightarrow> (error + unit) \<times> world" where
  "copy p q w =
     (case map_of (files w) p of
        None \<Rightarrow> (Inl (FsError p), emit (E_copy p q) w)
      | Some text \<Rightarrow> (Inr (), emit (E_copy p q) (w\<lparr>files := AList.update q text (files w)\<rparr>)))"

text \<open>Modelled from the spec: \<open>remove\<close> of \<open>@/lib/utils/fs\<close> is not under \<open>src/\<close>. It
  deletes a path, and succeeds when the path does not exist.\<close>

definition remove :: "string \<Rightarrow> world \<Rightarrow> world" where
  "remove p w = emit (E_remove p) (w\<lparr>files := AList.delete p (files w)\<rparr>)"

section \<open>\<open>updateIpfs\<close>: the asset publisher\<close>

text \<open>The upload loop of \<open>updateIpfs\<close> (step 3): a file whose ledger entry is falsy is
  uploaded and its identifier recorded in \<open>ipfsUploads\<close>; a failed upload rejects.
  \<open>ipfsUploads\<close> is built by the code itself, key by key; it is kept as the list of its
  entries in insertion order, which is what \<open>Object.keys\<close> enumerates.\<close>

fun upload_loop ::
  "env \<Rightarrow> string \<Rightarrow> uploadToIPFSOptions \<Rightarrow> json_obj \<Rightarrow> string list \<Rightarrow> (string \<times> string) list
    \<Rightarrow> world \<Rightarrow> (error + (string \<times> string) list) \<times> world" where
  "upload_loop env pwd options ipfsMap [] ipfsUploads w = (Inr ipfsUploads, w)"
| "upload_loop env pwd options ipfsMap (file # rest) ipfsUploads w =
     (if truthy (ipfsMap file) then upload_loop env pwd options ipfsMap rest ipfsUploads w
      else
        (case uploadToIPFS env (files w) (path_join [pwd, ''ipfs'', file]) options of
           Inl e \<Rightarrow> (Inl e, emit (E_uploadToIPFS (path_join [pwd, ''ipfs'', file])) w)
         | Inr cid \<Rightarrow>
             upload_loop env pwd options ipfsMap rest (AList.update file cid ipfsUploads)
               (emit (E_uploadToIPFS (path_join [pwd, ''ipfs'', file])) w)))"

text \<open>Step 1 of \<open>updateIpfs\<close>: the ledger as loaded, an empty object when the file is
  missing or unreadable.\<close>

definition load_ledger :: "env \<Rightarrow> string \<Rightarrow> world \<Rightarrow> json_obj \<times> world" where
  "load_ledger env pwd w = readJson_catch env (path_join [pwd, ''ipfs.json'']) w"

text \<open>Step 2 of \<open>updateIpfs\<close>: the files under \<open>ipfs/\<close>, relative to it.\<close>

definition list_assets :: "string \<Rightarrow> world \<Rightarrow> string list \<times> world" where
  "list_assets pwd w =
     (case loopThroughFiles (path_join [pwd, ''ipfs'']) w of
        (found, w') \<Rightarrow> (map (path_relative (path_join [pwd, ''ipfs''])) found, w'))"

text \<open>Step 4 of \<open>updateIpfs\<close>: every key of \<open>ipfsUploads\<close> is assigned into a copy of
  the ledger.\<close>

definition merge_uploads :: "json_obj \<Rightarrow> (string \<times> string) list \<Rightarrow> json_obj" where
  "merge_uploads ipfsMap ipfsUploads =
     fold (\<lambda>file newIpfsMap. newIpfsMap(file := map_of ipfsUploads file))
       (map fst ipfsUploads) ipfsMap"

text \<open>The end of \<open>updateIpfs\<close>: the merged ledger is written and mirrored only when
  there is a new entry, and returned in either case.\<close>

definition persist_ledger ::
  "env \<Rightarrow> string \<Rightarrow> string \<Rightarrow> json_obj \<Rightarrow> (string \<times> string) list \<Rightarrow> world
    \<Rightarrow> (error + json_obj) \<times> world" where
  "persist_ledger env pwd dest ipfsMap ipfsUploads w =
     (if ipfsUploads = [] then (Inr (merge_uploads ipfsMap ipfsUploads), w)
      else
        (case copy (path_join [pwd, ''ipfs.json'']) (path_join [dest, ''ipfs.json''])
                (writeJson env (path_join [pwd, ''ipfs.json''])
                   (merge_uploads ipfsMap ipfsUploads) w) of
           (Inl e, w') \<Rightarrow> (Inl e, w')
         | (Inr u, w') \<Rightarrow> (Inr (merge_uploads ipfsMap ipfsUploads), w')))"

definition updateIpfs ::
  "env \<Rightarrow> string \<Rightarrow> string \<Rightarrow> uploadToIPFSOptions \<Rightarrow> world \<Rightarrow> (error + json_obj) \<times> world" where
  "updateIpfs env pwd dest options w =
     (case load_ledger env pwd w of
        (ipfsMap, w1) \<Rightarrow>
          (case list_assets pwd w1 of
             (ipfsFiles, w2) \<Rightarrow>
               (case upload_loop env pwd options ipfsMap ipfsFiles [] w2 of
                  (Inl e, w3) \<Rightarrow> (Inl e, w3)
                | (Inr ipfsUploads, w3) \<Rightarrow> persist_ledger env pwd dest ipfsMap ipfsUploads w3)))"

section \<open>\<open>buildApp\<close>: the build orchestrator\<close>

text \<open>Lines 28 to 33: the alias sources named by the configuration, or the default
  when the configuration is undefined or names none; each source is read relative to
  \<open>src\<close> and assigned onto the table built so far.\<close>

definition aliasesSrcs_of :: "string \<Rightarrow> base_config option \<Rightarrow> string list" where
  "aliasesSrcs_of src config =
     (case (case config of None \<Rightarrow> None | Some c \<Rightarrow> aliases c) of
        None \<Rightarrow> [path_join [src, ''aliases.json'']]
      | Some srcs \<Rightarrow> srcs)"

text \<open>\<open>Object.assign(target, source)\<close> of line 32: every own key of the source is
  assigned onto the target, replacing the value of a key the target has. The assignment
  of a key \<open>__proto__\<close> reaches the setter that the target inherits from
  \<open>Object.prototype\<close>, which ignores a string: that key is not copied.\<close>

definition object_assign :: "json_obj \<Rightarrow> json_obj \<Rightarrow> json_obj" where
  "object_assign target source = target ++ (source(''__proto__'' := None))"

fun aliases_loop :: "env \<Rightarrow> string \<Rightarrow> string list \<Rightarrow> json_obj \<Rightarrow> world \<Rightarrow> json_obj \<times> world" where
  "aliases_loop env src [] als w = (als, w)"
| "aliases_loop env src (aliasesSrc # rest) als w =
     (case readJson_catch env (path_join [src, aliasesSrc]) w of
        (aliasesData, w') \<Rightarrow> aliases_loop env src rest (object_assign als aliasesData) w')"

text \<open>Lines 46 to 59: a file is a source unit when its extension is one of four.\<close>

definition is_source :: "string \<Rightarrow> bool" where
  "is_source file =
     (case path_extname file of
        ext \<Rightarrow> ext = ''.js'' \<or> ext = ''.jsx'' \<or> ext = ''.ts'' \<or> ext = ''.tsx'')"

text \<open>Line 63: the logical name of a module file.\<close>

definition logical_module_name :: "string \<Rightarrow> string \<Rightarrow> string" where
  "logical_module_name src file =
     path_relative (path_join [src, ''module'']) (replace_first (path_extname file) [] file)"

text \<open>Lines 98 to 100 and 137 to 139: the name of the output file of a unit.\<close>

definition module_file_name :: "string \<Rightarrow> string \<Rightarrow> string" where
  "module_file_name src file =
     drop_last_n (length (path_extname file))
       (replace_first [path_sep] ''.'' (path_relative (path_join [src, ''module'']) file))
     @ ''.module.js''"

definition widget_file_name :: "string \<Rightarrow> string \<Rightarrow> string" where
  "widget_file_name src file =
     join_with ''.''
       (split_on path_sep
          (drop_last_n (length (path_extname file))
             (replace_first [path_sep] ''.'' (path_relative (path_join [src, ''widget'']) file))))
     @ ''.jsx''"

fun new_file_name :: "kind \<Rightarrow> string \<Rightarrow> string \<Rightarrow> string" where
  "new_file_name Module src file = module_file_name src file"
| "new_file_name Widget src file = widget_file_name src file"

definition new_file_path :: "kind \<Rightarrow> string \<Rightarrow> string \<Rightarrow> string \<Rightarrow> string" where
  "new_file_path k src dest file = path_join [dest, ''src'', ''widget'', new_file_name k src file]"

text \<open>Lines 86 to 94 and 123 to 131: a diagnostic keeps its line and gets the unit's
  path relative to the source root.\<close>

definition tag_log :: "string \<Rightarrow> string \<Rightarrow> log \<Rightarrow> log" where
  "tag_log src file v = v\<lparr>source_file := Some (path_relative (path_join [src]) file)\<rparr>"

text \<open>
  Lines 80 to 106 and 117 to 145: the two batch loops. They differ in the output name
  only (and in the widget diagnostics being sent to the logging sink, which is not
  modelled), so one function, given the batch, embeds both. The accumulator is
  \<open>logs\<close> and \<open>new_build_files\<close>. A read or transpile failure leaves the loop at once
  with the error.
\<close>

fun transpile_units ::
  "env \<Rightarrow> kind \<Rightarrow> string \<Rightarrow> string \<Rightarrow> evalCustomSyntaxParams \<Rightarrow> string option \<Rightarrow> string list
    \<Rightarrow> log list \<times> string list \<Rightarrow> world \<Rightarrow> (error + log list \<times> string list) \<times> world" where
  "transpile_units env k src dest params fmt [] acc w = (Inr acc, w)"
| "transpile_units env k src dest params fmt (file # rest) acc w =
     (case readFile k file w of
        (Inl e, w1) \<Rightarrow> (Inl e, w1)
      | (Inr content, w1) \<Rightarrow>
          (case transpileJS env content params
                  \<lparr>compileTypeScript = (endsWith file ''.ts'' \<or> endsWith file ''.tsx''),
                   o_format = fmt\<rparr> of
             Inl e \<Rightarrow> (Inl e, emit (E_transpileJS k file (Some e)) w1)
           | Inr new_file \<Rightarrow>
               transpile_units env k src dest params fmt rest
                 (fst acc @ map (tag_log src file) (logs new_file),
                  snd acc @ [new_file_path k src dest file])
                 (outputFile k (new_file_path k src dest file) (code new_file)
                    (emit (E_transpileJS k file None) w1))))"

text \<open>Lines 153 to 158: a file of the earlier build that this build did not write is
  removed.\<close>

fun remove_stale :: "string list \<Rightarrow> string list \<Rightarrow> world \<Rightarrow> world" where
  "remove_stale new_build_files [] w = w"
| "remove_stale new_build_files (file # rest) w =
     (if file \<in> set new_build_files then remove_stale new_build_files rest w
      else remove_stale new_build_files rest (remove file w))"

text \<open>Lines 160 to 172: \<open>config.accounts!.deploy!\<close> throws when \<open>accounts\<close> is
  undefined; a failure of the metadata generator rejects the build.\<close>

definition finish_build ::
  "env \<Rightarrow> string \<Rightarrow> string \<Rightarrow> base_config \<Rightarrow> log list \<Rightarrow> world \<Rightarrow> (error + log list) \<times> world" where
  "finish_build env src dest config result_logs w =
     (case accounts config of
        None \<Rightarrow> (Inl (TypeError ''accounts''), w)
      | Some acc \<Rightarrow>
          (case generateData env (files w) src dest (deploy acc) of
             Some e \<Rightarrow> (Inl e, emit (E_generateData src dest) w)
           | None \<Rightarrow> (Inr result_logs, emit (E_generateData src dest) w)))"

text \<open>Lines 42 to 173, with the configuration and its \<open>ipfs\<close> section defined.\<close>

definition build_units ::
  "env \<Rightarrow> string \<Rightarrow> string \<Rightarrow> base_config \<Rightarrow> ipfs_config \<Rightarrow> json_obj \<Rightarrow> json_obj \<Rightarrow> world
    \<Rightarrow> (error + log list) \<times> world" where
  "build_units env src dest config ic als ipfsMap w =
     (case loopThroughFiles (path_join [src, ''module'']) w of
        (module_files, w1) \<Rightarrow>
     (case loopThroughFiles (path_join [src, ''widget'']) w1 of
        (widget_files, w2) \<Rightarrow>
     (case loopThroughFiles (path_join [dest, ''src'', ''widget'']) w2 of
        (original_build_files, w3) \<Rightarrow>
     (case \<lparr>p_config = config,
            p_modules = map (logical_module_name src) (filter is_source module_files),
            p_ipfsMap = ipfsMap,
            p_ipfsGateway = gateway ic,
            p_aliases = als\<rparr> of
        params \<Rightarrow>
     (case transpile_units env Module src dest params (format config)
             (filter is_source module_files) ([], []) w3 of
        (Inl e, w4) \<Rightarrow> (Inl e, w4)
      | (Inr acc1, w4) \<Rightarrow>
     (case transpile_units env Widget src dest params (format config)
             (filter is_source widget_files) acc1 w4 of
        (Inl e, w5) \<Rightarrow> (Inl e, w5)
      | (Inr acc2, w5) \<Rightarrow>
          finish_build env src dest config (fst acc2)
            (remove_stale (snd acc2) original_build_files w5)))))))"

text \<open>
  \<open>buildApp\<close>. A failed configuration load is caught (line 24) and leaves \<open>config\<close>
  undefined; the alias sources are then read as for a configuration without alias
  list, and the first unguarded read of \<open>config.ipfs\<close> (line 37, an argument of the
  \<open>updateIpfs\<close> call) throws. Progress reporting (\<open>log.loading\<close>, \<open>log.wait\<close>) is not
  modelled.
\<close>

definition buildApp ::
  "env \<Rightarrow> string \<Rightarrow> string \<Rightarrow> string \<Rightarrow> world \<Rightarrow> (error + log list) \<times> world" where
  "buildApp env src dest network w =
     (case (case readConfig env (files w) (path_join [src, ''bos.config.json'']) network of
              Inl e \<Rightarrow> None
            | Inr c \<Rightarrow> Some c) of
        config \<Rightarrow>
     (case aliases_loop env src (aliasesSrcs_of src config) Map.empty
             (emit (E_readConfig (path_join [src, ''bos.config.json'']) network) w) of
        (als, w1) \<Rightarrow>
          (case config of
             None \<Rightarrow> (Inl (TypeError ''config''), w1)
           | Some c \<Rightarrow>
               (case ipfs c of
                  None \<Rightarrow> (Inl (TypeError ''ipfs''), w1)
                | Some ic \<Rightarrow>
                    (case updateIpfs env src dest
                            \<lparr>uploadAPI_url = uploadApi ic,
                             uploadAPI_headers = uploadApiHeaders ic\<rparr> w1 of
                       (Inl e, w2) \<Rightarrow> (Inl e, w2)
                     | (Inr ipfsMap, w2) \<Rightarrow> build_units env src dest c ic als ipfsMap w2)))))"

text \<open>The calls that a run added to the record.\<close>

definition new_calls :: "world \<Rightarrow> world \<Rightarrow> event list" where
  "new_calls w w' = drop (length (calls w)) (calls w')"

section \<open>Vocabulary of the properties\<close>

text \<open>A world extends another when its record of calls continues the other's.\<close>

definition extends :: "world \<Rightarrow> world \<Rightarrow> bool" where
  "extends w w' = prefix (calls w) (calls w')"

text \<open>A file is present when the file system has it.\<close>

definition present :: "world \<Rightarrow> string \<Rightarrow> bool" where
  "present w p = (case map_of (files w) p of None \<Rightarrow> False | Some text \<Rightarrow> True)"

definition error_of :: "error + 'a \<Rightarrow> error option" where
  "error_of r = (case r of Inl e \<Rightarrow> Some e | Inr v \<Rightarrow> None)"

text \<open>The calls that change something outside the build: publishing, transpiling,
  writing, copying, removing, generating metadata.\<close>

fun side_effect :: "event \<Rightarrow> bool" where
  "side_effect (E_uploadToIPFS p) = True"
| "side_effect (E_writeJson p) = True"
| "side_effect (E_copy p q) = True"
| "side_effect (E_transpileJS k f r) = True"
| "side_effect (E_outputFile k p) = True"
| "side_effect (E_remove p) = True"
| "side_effect (E_generateData s d) = True"
| "side_effect e = False"

fun is_upload :: "event \<Rightarrow> bool" where
  "is_upload (E_uploadToIPFS p) = True"
| "is_upload e = False"

fun is_outputFile :: "event \<Rightarrow> bool" where
  "is_outputFile (E_outputFile k p) = True"
| "is_outputFile e = False"

fun is_remove :: "event \<Rightarrow> bool" where
  "is_remove (E_remove p) = True"
| "is_remove e = False"

fun is_generateData :: "event \<Rightarrow> bool" where
  "is_generateData (E_generateData s d) = True"
| "is_generateData e = False"

text \<open>The batch a call belongs to, for the calls made on a source unit.\<close>

fun unit_kind :: "event \<Rightarrow> kind option" where
  "unit_kind (E_readFile k p) = Some k"
| "unit_kind (E_transpileJS k f r) = Some k"
| "unit_kind (E_outputFile k p) = Some k"
| "unit_kind e = None"

fun is_failure :: "event \<Rightarrow> bool" where
  "is_failure (E_transpileJS k f (Some e)) = True"
| "is_failure e = False"

text \<open>A record of calls is fail-fast for a result when a failed transpile call is its
  last call and the result is that call's error.\<close>

fun fail_fast :: "event list \<Rightarrow> error option \<Rightarrow> bool" where
  "fail_fast [] r = True"
| "fail_fast (E_transpileJS k f (Some e) # rest) r = (rest = [] \<and> r = Some e)"
| "fail_fast (ev # rest) r = fail_fast rest r"

text \<open>Modules first: once a call of the widget batch is made, no call of the module
  batch follows.\<close>

definition modules_first :: "event list \<Rightarrow> bool" where
  "modules_first evs =
     list_all (\<lambda>e. unit_kind e \<noteq> Some Module) (dropWhile (\<lambda>e. unit_kind e \<noteq> Some Widget) evs)"

text \<open>The calls made before the source units are catalogued: configuration, aliases and
  asset publishing. The only directory walked there is the asset directory.\<close>

fun pre_event :: "string \<Rightarrow> event \<Rightarrow> bool" where
  "pre_event src (E_readConfig p n) = True"
| "pre_event src (E_readJson p) = True"
| "pre_event src (E_loopThroughFiles d found) = (d = path_join [src, ''ipfs''])"
| "pre_event src (E_uploadToIPFS p) = True"
| "pre_event src (E_writeJson p) = True"
| "pre_event src (E_copy p q) = True"
| "pre_event src e = False"

text \<open>What an alias or ledger source contributes, in the spec's words: the object it
  holds, or an empty mapping when it cannot be loaded.\<close>

definition load_or_empty :: "env \<Rightarrow> fs \<Rightarrow> string \<Rightarrow> json_obj" where
  "load_or_empty env fs p =
     (case map_of fs p of
        None \<Rightarrow> Map.empty
      | Some text \<Rightarrow> (case parseJson env text of None \<Rightarrow> Map.empty | Some obj \<Rightarrow> obj))"

text \<open>Alias merging in the spec's words: the sources applied in the given order, each
  overwriting the keys already present from earlier ones.\<close>

definition alias_fold :: "json_obj list \<Rightarrow> json_obj" where
  "alias_fold sources = foldl (++) Map.empty sources"

text \<open>Output naming in the spec's words: the source-relative path with its extension
  stripped, every separator flattened into a dot, and the suffix appended.\<close>

definition flattened_name :: "string \<Rightarrow> string \<Rightarrow> string" where
  "flattened_name suf rel =
     map (\<lambda>c. if c = path_sep then CHR ''.'' else c)
       (drop_last_n (length (path_extname rel)) rel) @ suf"

text \<open>The module name in the spec's words: the path relative to the module root with
  only its trailing extension removed.\<close>

definition stripped_name :: "string \<Rightarrow> string" where
  "stripped_name rel = drop_last_n (length (path_extname rel)) rel"

text \<open>The files a walk of a directory finds, the asset paths of step 2, and the state
  and parameters with which the batches start.\<close>

definition walk :: "string \<Rightarrow> world \<Rightarrow> string list" where
  "walk dir w = filter (inside_dir dir) (map fst (files w))"

definition assets_of :: "string \<Rightarrow> fs \<Rightarrow> string list" where
  "assets_of pwd fs =
     map (path_relative (path_join [pwd, ''ipfs'']))
       (filter (inside_dir (path_join [pwd, ''ipfs''])) (map fst fs))"

definition units_start :: "string \<Rightarrow> string \<Rightarrow> world \<Rightarrow> world" where
  "units_start src dest w =
     emit (E_loopThroughFiles (path_join [dest, ''src'', ''widget''])
             (walk (path_join [dest, ''src'', ''widget'']) w))
       (emit (E_loopThroughFiles (path_join [src, ''widget'']) (walk (path_join [src, ''widget'']) w))
          (emit (E_loopThroughFiles (path_join [src, ''module''])
                   (walk (path_join [src, ''module'']) w)) w))"

definition units_params ::
  "string \<Rightarrow> base_config \<Rightarrow> ipfs_config \<Rightarrow> json_obj \<Rightarrow> json_obj \<Rightarrow> world
    \<Rightarrow> evalCustomSyntaxParams" where
  "units_params src config ic als ipfsMap w =
     \<lparr>p_config = config,
      p_modules = map (logical_module_name src)
                    (filter is_source (walk (path_join [src, ''module'']) w)),
      p_ipfsMap = ipfsMap,
      p_ipfsGateway = gateway ic,
      p_aliases = als\<rparr>"

text \<open>The state after one unit has been read, transpiled and written.\<close>

definition unit_written :: "kind \<Rightarrow> string \<Rightarrow> string \<Rightarrow> string \<Rightarrow> string \<Rightarrow> world \<Rightarrow> world" where
  "unit_written k src dest file text w =
     outputFile k (new_file_path k src dest file) text
       (emit (E_transpileJS k file None) (emit (E_readFile k file) w))"

text \<open>The shape of the calls made from the catalogue on: the three directory walks, then
  the calls of the module batch \<open>M\<close>, of the widget batch \<open>W\<close>, and of reconciliation
  and metadata generation \<open>R\<close>.\<close>

definition units_shape ::
  "string \<Rightarrow> string \<Rightarrow> world \<Rightarrow> error option \<Rightarrow> world \<Rightarrow> event list \<Rightarrow> event list \<Rightarrow> event list \<Rightarrow> bool" where
  "units_shape src dest w r w' M W R =
    (extends w w'
     \<and> new_calls w w' = new_calls w (units_start src dest w) @ M @ W @ R
     \<and> list_all (\<lambda>e. unit_kind e = Some Module) M
     \<and> list_all (\<lambda>e. unit_kind e = Some Widget) W
     \<and> list_all (\<lambda>e. is_remove e \<or> is_generateData e) R
     \<and> fail_fast (M @ W @ R) r
     \<and> (\<forall>f. (W \<noteq> [] \<or> r = None) \<longrightarrow>
            f \<in> set (filter is_source (walk (path_join [src, ''module'']) w)) \<longrightarrow>
            E_transpileJS Module f None \<in> set M
            \<and> E_outputFile Module (new_file_path Module src dest f) \<in> set M)
     \<and> (\<forall>k p. E_outputFile k p \<in> set (M @ W) \<longrightarrow>
            present w' p \<and> E_remove p \<notin> set R \<and> p \<in> range (new_file_path k src dest))
     \<and> (\<forall>p. r = None \<longrightarrow> p \<in> set (walk (path_join [dest, ''src'', ''widget'']) w) \<longrightarrow>
            (\<forall>k. E_outputFile k p \<notin> set (M @ W)) \<longrightarrow>
            E_remove p \<in> set R \<and> \<not> present w' p))"

section \<open>A concrete environment\<close>

text \<open>
  A small environment on which the build runs: a JSON codec for objects written as
  \<open>key=value;key=value\<close> over four keys, a content store that names an asset after its
  path, a transpiler that rejects the content \<open>bad\<close>, and a metadata generator that
  succeeds.
\<close>

definition demo_keys :: "string list" where
  "demo_keys = [''old.png'', ''logo.png'', ''a'', ''b'']"

fun demo_entries :: "string list \<Rightarrow> json_obj option" where
  "demo_entries [] = Some Map.empty"
| "demo_entries (e # es) =
     (case split_on CHR ''='' e of
        [k, v] \<Rightarrow> (case demo_entries es of None \<Rightarrow> None | Some m \<Rightarrow> Some (m(k \<mapsto> v)))
      | other \<Rightarrow> None)"

definition demo_parse :: "string \<Rightarrow> json_obj option" where
  "demo_parse text = (if text = [] then Some Map.empty else demo_entries (split_on CHR '';'' text))"

definition demo_stringify :: "json_obj \<Rightarrow> string" where
  "demo_stringify m =
     join_with '';''
       (concat (map (\<lambda>k. case m k of None \<Rightarrow> [] | Some v \<Rightarrow> [k @ ''='' @ v]) demo_keys))"

definition demo_config :: base_config where
  "demo_config =
     \<lparr>format = None, aliases = None,
      ipfs = Some \<lparr>uploadApi = Some ''https://upload'', uploadApiHeaders = None,
                   gateway = Some ''https://gateway''\<rparr>,
      accounts = Some \<lparr>deploy = Some ''dev.near''\<rparr>\<rparr>"

definition demo_options :: uploadToIPFSOptions where
  "demo_options = \<lparr>uploadAPI_url = Some ''https://upload'', uploadAPI_headers = None\<rparr>"

definition demo_env :: env where
  "demo_env =
     \<lparr>readConfig = (\<lambda>fs p network.
         case map_of fs p of None \<Rightarrow> Inl (ConfigError p) | Some text \<Rightarrow> Inr demo_config),
      parseJson = demo_parse,
      stringifyJson = demo_stringify,
      uploadToIPFS = (\<lambda>fs p options. Inr (''cid:'' @ p)),
      transpileJS = (\<lambda>content params options.
         if content = ''bad'' then Inl (TranspileError ''bad'')
         else Inr \<lparr>code = ''js:'' @ content, logs = []\<rparr>),
      generateData = (\<lambda>fs s d account. None)\<rparr>"

text \<open>The same environment with a content store that returns an empty identifier.\<close>

definition empty_cid_env :: env where
  "empty_cid_env = demo_env\<lparr>uploadToIPFS := (\<lambda>fs p options. Inr [])\<rparr>"

text \<open>An application with an alias file, a ledger that knows \<open>old.png\<close>, two assets,
  two modules, two widgets (one named like a module) and two outputs of an earlier
  build.\<close>

definition demo_world :: world where
  "demo_world =
     \<lparr>files =
        [(''app/bos.config.json'', ''cfg''),
         (''app/aliases.json'', ''a=1''),
         (''app/ipfs.json'', ''old.png=cid0''),
         (''app/ipfs/old.png'', ''changed''),
         (''app/ipfs/logo.png'', ''PNG''),
         (''app/module/a/b/c.ts'', ''m1''),
         (''app/module/util.js'', ''m2''),
         (''app/widget/x/y.jsx'', ''w1''),
         (''app/widget/util.tsx'', ''w2''),
         (''out/src/widget/old.jsx'', ''stale''),
         (''out/src/widget/x.y.jsx'', ''prev'')],
      calls = []\<rparr>"

text \<open>An application whose second module of three does not transpile.\<close>

definition failing_world :: world where
  "failing_world =
     \<lparr>files =
        [(''app/bos.config.json'', ''cfg''),
         (''app/module/m1.js'', ''one''),
         (''app/module/m2.js'', ''bad''),
         (''app/module/m3.js'', ''three''),
         (''app/widget/w.jsx'', ''w1'')],
      calls = []\<rparr>"

text \<open>Two alias files, the second overriding a key of the first, and a widget.\<close>

definition alias_world :: world where
  "alias_world =
     \<lparr>files = [(''app/one.json'', ''a=1''), (''app/two.json'', ''a=2;b=3''),
               (''app/widget/w.jsx'', ''w1'')],
      calls = []\<rparr>"

text \<open>A configuration that names three alias sources, the second of which does not
  exist, and an environment with that configuration whose transpiler writes the target
  of the alias \<open>a\<close> in front of the code.\<close>

definition alias_config :: base_config where
  "alias_config = demo_config\<lparr>aliases := Some [''one.json'', ''missing.json'', ''two.json'']\<rparr>"

definition alias_env :: env where
  "alias_env =
     demo_env
       \<lparr>readConfig := (\<lambda>fs p network. Inr alias_config),
        transpileJS := (\<lambda>content params options.
           Inr \<lparr>code = (case p_aliases params ''a'' of None \<Rightarrow> ''?'' | Some v \<Rightarrow> v)
                        @ '':'' @ content,
                 logs = []\<rparr>)\<rparr>"

text \<open>An application built from its own directory under a configuration that names
  no alias source, with an alias file beside the configuration and a widget; the
  transpiler is the one that shows the alias \<open>a\<close>.\<close>

definition default_env :: env where
  "default_env = alias_env\<lparr>readConfig := (\<lambda>fs p network. Inr demo_config)\<rparr>"

definition local_world :: world where
  "local_world =
     \<lparr>files = [(''aliases.json'', ''a=1''), (''widget/w.jsx'', ''w1'')], calls = []\<rparr>"

text \<open>An alias file with a key \<open>__proto__\<close>.\<close>

definition proto_world :: world where
  "proto_world = \<lparr>files = [(''app/proto.json'', ''__proto__=x;a=1'')], calls = []\<rparr>"

text \<open>An application built from its own directory, with an alias file beside the
  configuration.\<close>

definition here_world :: world where
  "here_world =
     \<lparr>files = [(''bos.config.json'', ''cfg''), (''aliases.json'', ''a=1'')], calls = []\<rparr>"

text \<open>A ledger that records \<open>logo.png\<close> with an empty identifier.\<close>

definition empty_entry_world :: world where
  "empty_entry_world =
     \<lparr>files = [(''app/ipfs.json'', ''logo.png=''), (''app/ipfs/logo.png'', ''PNG'')], calls = []\<rparr>"

text \<open>An asset directory with one asset and no ledger yet.\<close>

definition fresh_world :: world where
  "fresh_world = \<lparr>files = [(''app/ipfs/logo.png'', ''PNG'')], calls = []\<rparr>"

section \<open>Auxiliary facts\<close>

lemma files_emit [simp]: "files (emit e w) = files w"
  by (simp add: emit_def)

lemma calls_emit [simp]: "calls (emit e w) = calls w @ [e]"
  by (simp add: emit_def)

lemma new_calls_append: "calls w' = calls w @ evs \<Longrightarrow> new_calls w w' = evs"
  by (simp add: new_calls_def)

lemma readJson_catch_eq:
  "readJson_catch env p w = (load_or_empty env (files w) p, emit (E_readJson p) w)"
  by (simp add: readJson_catch_def readJson_def load_or_empty_def split: option.splits)

lemma load_ledger_eq:
  "load_ledger env pwd w =
     (load_or_empty env (files w) (path_join [pwd, ''ipfs.json'']),
      emit (E_readJson (path_join [pwd, ''ipfs.json''])) w)"
  by (simp add: load_ledger_def readJson_catch_eq)

lemma list_assets_eq:
  "list_assets pwd w =
     (assets_of pwd (files w),
      emit (E_loopThroughFiles (path_join [pwd, ''ipfs''])
              (filter (inside_dir (path_join [pwd, ''ipfs''])) (map fst (files w)))) w)"
  by (simp add: list_assets_def loopThroughFiles_def assets_of_def)

lemma upload_loop_all_truthy:
  "\<forall>f \<in> set fs. truthy (m f) \<Longrightarrow> upload_loop env pwd opts m fs ups w = (Inr ups, w)"
  by (induction fs) simp_all

lemma extends_refl [simp]: "extends w w"
  by (simp add: extends_def)

lemma extends_trans: "extends w w' \<Longrightarrow> extends w' w'' \<Longrightarrow> extends w w''"
  by (auto simp: extends_def)

lemma extends_emit [simp]: "extends w (emit e w)"
  by (simp add: extends_def)

lemma new_calls_self [simp]: "new_calls w w = []"
  by (simp add: new_calls_def)

lemma new_calls_emit [simp]: "new_calls w (emit e w) = [e]"
  by (simp add: new_calls_def)

lemma new_calls_trans:
  "extends w w' \<Longrightarrow> extends w' w'' \<Longrightarrow> new_calls w w'' = new_calls w w' @ new_calls w' w''"
  by (auto simp: extends_def new_calls_def prefix_def)

lemma extends_calls: "extends w w' \<Longrightarrow> calls w' = calls w @ new_calls w w'"
  by (auto simp: extends_def new_calls_def prefix_def)

lemma upload_loop_files:
  "upload_loop env pwd opts m fs ups w = (r, w') \<Longrightarrow> files w' = files w"
  by (induction fs arbitrary: ups w) (auto split: if_splits sum.splits)

lemma upload_loop_extends:
  "upload_loop env pwd opts m fs ups w = (r, w') \<Longrightarrow>
     extends w w' \<and> list_all is_upload (new_calls w w')"
proof (induction fs arbitrary: ups w)
  case Nil
  then show ?case by auto
next
  case (Cons f fs)
  let ?w1 = "emit (E_uploadToIPFS (path_join [pwd, ''ipfs'', f])) w"
  show ?case
  proof (cases "truthy (m f)")
    case True
    with Cons.prems Cons.IH show ?thesis by simp
  next
    case False
    show ?thesis
    proof (cases "uploadToIPFS env (files w) (path_join [pwd, ''ipfs'', f]) opts")
      case (Inl e)
      with False Cons.prems show ?thesis by auto
    next
      case (Inr cid)
      with False Cons.prems
      have "upload_loop env pwd opts m fs (AList.update f cid ups) ?w1 = (r, w')" by simp
      from Cons.IH[OF this] have e: "extends ?w1 w'" and u: "list_all is_upload (new_calls ?w1 w')"
        by simp_all
      have "new_calls w w' = new_calls w ?w1 @ new_calls ?w1 w'"
        by (rule new_calls_trans) (simp_all add: e)
      with u e show ?thesis
        by (simp add: extends_trans[OF extends_emit e])
    qed
  qed
qed

lemma upload_loop_keeps:
  "upload_loop env pwd opts m fs ups w = (Inr ups', w') \<Longrightarrow> map_of ups k \<noteq> None \<Longrightarrow>
     map_of ups' k \<noteq> None"
proof (induction fs arbitrary: ups w)
  case Nil
  then show ?case by auto
next
  case (Cons f fs)
  show ?case
  proof (cases "truthy (m f)")
    case True
    with Cons.prems Cons.IH show ?thesis by simp
  next
    case False
    show ?thesis
    proof (cases "uploadToIPFS env (files w) (path_join [pwd, ''ipfs'', f]) opts")
      case (Inl e)
      with False Cons.prems show ?thesis by auto
    next
      case (Inr cid)
      with False Cons.prems
      have run: "upload_loop env pwd opts m fs (AList.update f cid ups)
          (emit (E_uploadToIPFS (path_join [pwd, ''ipfs'', f])) w) = (Inr ups', w')" by simp
      have "map_of (AList.update f cid ups) k \<noteq> None"
        using Cons.prems(2) by (simp add: update_conv')
      from Cons.IH[OF run this] show ?thesis .
    qed
  qed
qed

lemma upload_loop_cover:
  "upload_loop env pwd opts m fs ups w = (Inr ups', w') \<Longrightarrow> g \<in> set fs \<Longrightarrow>
     truthy (m g) \<or> map_of ups' g \<noteq> None"
proof (induction fs arbitrary: ups w)
  case Nil
  then show ?case by auto
next
  case (Cons f fs)
  show ?case
  proof (cases "truthy (m f)")
    case True
    with Cons.prems Cons.IH show ?thesis by auto
  next
    case False
    show ?thesis
    proof (cases "uploadToIPFS env (files w) (path_join [pwd, ''ipfs'', f]) opts")
      case (Inl e)
      with False Cons.prems show ?thesis by auto
    next
      case (Inr cid)
      with False Cons.prems
      have run: "upload_loop env pwd opts m fs (AList.update f cid ups)
          (emit (E_uploadToIPFS (path_join [pwd, ''ipfs'', f])) w) = (Inr ups', w')" by simp
      show ?thesis
      proof (cases "g = f")
        case True
        have "map_of (AList.update f cid ups) f \<noteq> None" by (simp add: update_conv')
        from upload_loop_keeps[OF run this] True show ?thesis by simp
      next
        case False
        with Cons.prems(2) have "g \<in> set fs" by simp
        from Cons.IH[OF run this] show ?thesis .
      qed
    qed
  qed
qed

lemma upload_loop_change:
  "upload_loop env pwd opts m fs ups w = (Inr ups', w') \<Longrightarrow> map_of ups' k \<noteq> map_of ups k \<Longrightarrow>
     \<not> truthy (m k) \<and> k \<in> set fs
     \<and> E_uploadToIPFS (path_join [pwd, ''ipfs'', k]) \<in> set (new_calls w w')"
proof (induction fs arbitrary: ups w)
  case Nil
  then show ?case by auto
next
  case (Cons f fs)
  let ?w1 = "emit (E_uploadToIPFS (path_join [pwd, ''ipfs'', f])) w"
  show ?case
  proof (cases "truthy (m f)")
    case True
    with Cons.prems have "upload_loop env pwd opts m fs ups w = (Inr ups', w')" by simp
    from Cons.IH[OF this Cons.prems(2)] show ?thesis by simp
  next
    case False
    show ?thesis
    proof (cases "uploadToIPFS env (files w) (path_join [pwd, ''ipfs'', f]) opts")
      case (Inl e)
      with False Cons.prems show ?thesis by auto
    next
      case (Inr cid)
      with False Cons.prems
      have run: "upload_loop env pwd opts m fs (AList.update f cid ups) ?w1 = (Inr ups', w')"
        by simp
      from upload_loop_extends[OF run] have e: "extends ?w1 w'" by simp
      have nc: "new_calls w w' = E_uploadToIPFS (path_join [pwd, ''ipfs'', f]) # new_calls ?w1 w'"
        using new_calls_trans[OF extends_emit e] by simp
      show ?thesis
      proof (cases "k = f")
        case True
        with False nc show ?thesis by simp
      next
        case nk: False
        then have "map_of (AList.update f cid ups) k = map_of ups k"
          by (simp add: update_conv')
        with Cons.prems(2) have "map_of ups' k \<noteq> map_of (AList.update f cid ups) k" by simp
        from Cons.IH[OF run this] nc show ?thesis by simp
      qed
    qed
  qed
qed

lemma fold_assign:
  "fold (\<lambda>k m. m(k := g k)) ks m = (\<lambda>x. if x \<in> set ks then g x else m x)"
  by (induction ks arbitrary: m) (auto simp: fun_eq_iff)

lemma merge_uploads_eq: "merge_uploads m ups = m ++ map_of ups"
proof -
  have "merge_uploads m ups = (\<lambda>x. if x \<in> set (map fst ups) then map_of ups x else m x)"
    unfolding merge_uploads_def by (rule fold_assign)
  also have "\<dots> = m ++ map_of ups"
    by (auto simp: fun_eq_iff map_add_def dom_map_of_conv_image_fst[symmetric] domIff
          split: option.splits)
  finally show ?thesis .
qed

lemma persist_ledger_Inr:
  "persist_ledger env pwd dest m ups w = (Inr m1, w1) \<Longrightarrow>
     m1 = m ++ map_of ups \<and>
     (ups = [] \<longrightarrow> w1 = w) \<and>
     (ups \<noteq> [] \<longrightarrow>
        map_of (files w1) (path_join [pwd, ''ipfs.json'']) = Some (stringifyJson env m1))"
  by (auto simp: persist_ledger_def merge_uploads_eq copy_def writeJson_def update_conv'
           split: if_splits option.splits)

lemma updateIpfs_Inr:
  assumes "updateIpfs env pwd dest opts w = (Inr m1, w1)"
  obtains ups evs wc where
    "upload_loop env pwd opts (load_or_empty env (files w) (path_join [pwd, ''ipfs.json'']))
       (assets_of pwd (files w)) []
       (emit (E_loopThroughFiles (path_join [pwd, ''ipfs''])
              (filter (inside_dir (path_join [pwd, ''ipfs''])) (map fst (files w))))
         (emit (E_readJson (path_join [pwd, ''ipfs.json''])) w)) = (Inr ups, wc)"
    "persist_ledger env pwd dest (load_or_empty env (files w) (path_join [pwd, ''ipfs.json''])) ups wc
       = (Inr m1, w1)"
  using assms
  by (auto simp: updateIpfs_def load_ledger_eq list_assets_eq split: prod.splits sum.splits)

lemma persist_ledger_extends:
  "persist_ledger env pwd dest m ups w = (r, w1) \<Longrightarrow>
     extends w w1 \<and> \<not> list_ex is_upload (new_calls w w1)"
  by (auto simp: persist_ledger_def copy_def writeJson_def extends_def new_calls_def
           split: if_splits option.splits)

lemma split_on_not_Nil [simp]: "split_on d s \<noteq> []"
  by (induction s) (auto split: list.splits)

lemma split_on_no_sep: "d \<notin> set s \<Longrightarrow> split_on d s = [s]"
  by (induction s) auto

lemma split_on_append:
  "d \<notin> set s \<Longrightarrow>
     split_on d (u @ s) = butlast (split_on d u) @ [last (split_on d u) @ s]"
proof (induction u)
  case Nil
  then show ?case by (simp add: split_on_no_sep)
next
  case (Cons c u)
  then show ?case
    by (cases "split_on d u") (auto split: list.splits)
qed

lemma last_split_on_append:
  "d \<notin> set s \<Longrightarrow> last (split_on d (u @ s)) = last (split_on d u) @ s"
  by (simp add: split_on_append)

lemma normalizeString_last:
  "cs \<noteq> [] \<Longrightarrow> last cs \<noteq> [] \<Longrightarrow> last cs \<noteq> ''.'' \<Longrightarrow> last cs \<noteq> ''..'' \<Longrightarrow>
     normalizeString b acc cs \<noteq> [] \<and> last (normalizeString b acc cs) = last cs"
proof (induction cs arbitrary: acc b)
  case Nil
  then show ?case by simp
next
  case (Cons c cs)
  show ?case
  proof (cases "cs = []")
    case True
    with Cons.prems show ?thesis by simp
  next
    case False
    with Cons.prems have l: "last cs \<noteq> []" "last cs \<noteq> ''.''" "last cs \<noteq> ''..''" by simp_all
    have ih1: "normalizeString b' acc' cs \<noteq> []" for acc' b'
      using Cons.IH[OF False l] by simp
    have ih2: "last (normalizeString b' acc' cs) = last cs" for acc' b'
      using Cons.IH[OF False l] by simp
    show ?thesis using False
      by (simp add: ih1 ih2 split: list.splits)
  qed
qed

lemma join_with_suffix: "xs \<noteq> [] \<Longrightarrow> suffix (last xs) (join_with sep xs)"
proof (induction sep xs rule: join_with.induct)
  case (3 sep x y ys)
  then have "suffix (last (y # ys)) (join_with sep (y # ys))" by simp
  then show ?case by (auto simp: suffix_def)
qed simp_all

lemma join_with_last_arg:
  "s \<noteq> [] \<Longrightarrow> \<exists>u. join_with sep (filter (\<lambda>a. a \<noteq> []) (xs @ [n @ s])) = u @ s"
proof (induction xs)
  case Nil
  then show ?case by simp
next
  case (Cons x xs)
  then obtain u where u: "join_with sep (filter (\<lambda>a. a \<noteq> []) (xs @ [n @ s])) = u @ s" by blast
  have ne: "filter (\<lambda>a. a \<noteq> []) (xs @ [n @ s]) \<noteq> []" using Cons.prems by simp
  then obtain y ys where y: "filter (\<lambda>a. a \<noteq> []) (xs @ [n @ s]) = y # ys" by (cases "filter (\<lambda>a. a \<noteq> []) (xs @ [n @ s])") auto
  show ?case
  proof (cases "x = []")
    case True
    with u show ?thesis by auto
  next
    case False
    have "join_with sep (filter (\<lambda>a. a \<noteq> []) ((x # xs) @ [n @ s])) = x @ sep @ join_with sep (y # ys)"
      using False y by simp
    also have "\<dots> = (x @ sep @ u) @ s" using u y by simp
    finally show ?thesis by blast
  qed
qed

lemma path_normalize_suffix:
  assumes s: "path_sep \<notin> set s" "3 \<le> length s"
  shows "suffix s (path_normalize (u @ s))"
proof -
  let ?p = "u @ s"
  let ?cs = "split_on path_sep ?p"
  from s(2) have sne: "s \<noteq> []" by (cases s) simp_all
  have ne: "?p \<noteq> []" using sne by simp
  have lastp: "last ?p = last s" using sne by simp
  have "last s \<in> set s" using sne by (rule last_in_set)
  with s have nt: "last ?p \<noteq> path_sep" using lastp by auto
  have lc: "last ?cs = last (split_on path_sep u) @ s"
    using s by (simp add: last_split_on_append)
  then have len: "3 \<le> length (last ?cs)" using s by simp
  then have l: "last ?cs \<noteq> []" "last ?cs \<noteq> ''.''" "last ?cs \<noteq> ''..''" by auto
  have n: "normalizeString (\<not> isAbsolute ?p) [] ?cs \<noteq> []"
          "last (normalizeString (\<not> isAbsolute ?p) [] ?cs) = last ?cs"
    using normalizeString_last[OF split_on_not_Nil l, of "\<not> isAbsolute ?p" "[]"] by simp_all
  let ?body = "join_with [path_sep] (normalizeString (\<not> isAbsolute ?p) [] ?cs)"
  have sb: "suffix (last ?cs) ?body"
    using join_with_suffix[OF n(1), of "[path_sep]"] n(2) by simp
  have "suffix s (last ?cs)" using lc by (simp add: suffix_def)
  from suffix_order.trans[OF this sb] have ss: "suffix s ?body" .
  then have bne: "?body \<noteq> []" using s by (auto simp: suffix_def)
  have "path_normalize ?p = (if isAbsolute ?p then [path_sep] else []) @ ?body"
    using sne nt bne by (auto simp add: path_normalize_def Let_def)
  with ss show ?thesis by (auto simp: suffix_def)
qed

lemma path_join_suffix:
  assumes s: "path_sep \<notin> set s" "3 \<le> length s"
  shows "suffix s (path_join (xs @ [n @ s]))"
proof -
  from s have "s \<noteq> []" by auto
  from join_with_last_arg[OF this, of "[path_sep]" xs n]
  obtain u where "join_with [path_sep] (filter (\<lambda>a. a \<noteq> []) (xs @ [n @ s])) = u @ s" by blast
  then show ?thesis
    using path_normalize_suffix[OF s, of u] by (simp add: path_join_def)
qed

lemma new_file_path_suffix:
  "suffix (case k of Module \<Rightarrow> ''.module.js'' | Widget \<Rightarrow> ''.jsx'') (new_file_path k src dest file)"
proof (cases k)
  case Module
  have "suffix ''.module.js'' (path_join ([dest, ''src'', ''widget''] @ [drop_last_n (length (path_extname file))
       (replace_first [path_sep] ''.'' (path_relative (path_join [src, ''module'']) file)) @ ''.module.js'']))"
    by (rule path_join_suffix) (simp_all add: path_sep_def)
  with Module show ?thesis by (simp add: new_file_path_def module_file_name_def)
next
  case Widget
  have "suffix ''.jsx'' (path_join ([dest, ''src'', ''widget''] @ [join_with ''.''
       (split_on path_sep
          (drop_last_n (length (path_extname file))
             (replace_first [path_sep] ''.'' (path_relative (path_join [src, ''widget'']) file)))) @ ''.jsx'']))"
    by (rule path_join_suffix) (simp_all add: path_sep_def)
  with Widget show ?thesis by (simp add: new_file_path_def widget_file_name_def)
qed

lemma new_file_path_distinct:
  "new_file_path Module src dest f \<noteq> new_file_path Widget src dest g"
proof
  assume eq: "new_file_path Module src dest f = new_file_path Widget src dest g"
  have a: "suffix ''.module.js'' (new_file_path Module src dest f)"
    using new_file_path_suffix[of Module src dest f] by simp
  have b: "suffix ''.jsx'' (new_file_path Widget src dest g)"
    using new_file_path_suffix[of Widget src dest g] by simp
  from a have "last (new_file_path Module src dest f) = CHR ''s''" by (auto simp: suffix_def)
  moreover from b have "last (new_file_path Widget src dest g) = CHR ''x''" by (auto simp: suffix_def)
  ultimately show False using eq by simp
qed

lemma dir_distinct:
  "path_join [src, ''module''] \<noteq> path_join [src, ''ipfs'']"
  "path_join [src, ''module''] \<noteq> path_join [src, ''widget'']"
  "path_join [src, ''module''] \<noteq> path_join [dest, ''src'', ''widget'']"
proof -
  have m: "suffix ''module'' (path_join ([src] @ [[] @ ''module'']))"
    by (rule path_join_suffix) (simp_all add: path_sep_def)
  have i: "suffix ''ipfs'' (path_join ([src] @ [[] @ ''ipfs'']))"
    by (rule path_join_suffix) (simp_all add: path_sep_def)
  have w: "suffix ''widget'' (path_join ([src] @ [[] @ ''widget'']))"
    by (rule path_join_suffix) (simp_all add: path_sep_def)
  have o: "suffix ''widget'' (path_join ([dest, ''src''] @ [[] @ ''widget'']))"
    by (rule path_join_suffix) (simp_all add: path_sep_def)
  from m have lm: "last (path_join [src, ''module'']) = CHR ''e''" by (auto simp: suffix_def)
  from i have li: "last (path_join [src, ''ipfs'']) = CHR ''s''" by (auto simp: suffix_def)
  from w have lw: "last (path_join [src, ''widget'']) = CHR ''t''" by (auto simp: suffix_def)
  from o have lo: "last (path_join [dest, ''src'', ''widget'']) = CHR ''t''" by (auto simp: suffix_def)
  show "path_join [src, ''module''] \<noteq> path_join [src, ''ipfs'']" using lm li by auto
  show "path_join [src, ''module''] \<noteq> path_join [src, ''widget'']" using lm lw by auto
  show "path_join [src, ''module''] \<noteq> path_join [dest, ''src'', ''widget'']" using lm lo by auto
qed

lemma fail_fast_no_failure: "\<not> list_ex is_failure xs \<Longrightarrow> fail_fast (xs @ ys) r = fail_fast ys r"
  by (induction xs r rule: fail_fast.induct) auto

lemma fail_fast_Cons: "fail_fast (a # rest) r \<Longrightarrow> rest \<noteq> [] \<Longrightarrow> fail_fast rest r"
  by (cases "(a # rest, r)" rule: fail_fast.cases) auto

lemma fail_fast_decomp:
  "fail_fast evs r \<Longrightarrow> evs = pre @ E_transpileJS k f (Some e) # post \<Longrightarrow> post = [] \<and> r = Some e"
proof (induction pre arbitrary: evs)
  case Nil
  then show ?case by simp
next
  case (Cons a pre)
  from Cons.prems have "fail_fast (pre @ E_transpileJS k f (Some e) # post) r"
    using fail_fast_Cons[of a "pre @ E_transpileJS k f (Some e) # post" r] by simp
  from Cons.IH[OF this] show ?case by simp
qed

lemma transpile_units_Cons_cases:
  assumes "transpile_units env k src dest params fmt (file # rest) acc w = (r, w')"
  obtains
    (read_failed) "r = Inl (FsError file)" "w' = emit (E_readFile k file) w"
  | (transpile_failed) e where "r = Inl e"
      "w' = emit (E_transpileJS k file (Some e)) (emit (E_readFile k file) w)"
  | (written) nf :: transpiled where
      "transpile_units env k src dest params fmt rest
         (fst acc @ map (tag_log src file) (logs nf), snd acc @ [new_file_path k src dest file])
         (unit_written k src dest file (code nf) w) = (r, w')"
proof (cases "map_of (files w) file")
  case None
  with assms show ?thesis by (intro read_failed) (simp_all add: readFile_def)
next
  case (Some content)
  show ?thesis
  proof (cases "transpileJS env content params
      \<lparr>compileTypeScript = (endsWith file ''.ts'' \<or> endsWith file ''.tsx''), o_format = fmt\<rparr>")
    case (Inl e)
    with Some assms show ?thesis by (intro transpile_failed[of e]) (simp_all add: readFile_def)
  next
    case (Inr nf)
    with Some assms show ?thesis
      by (intro written[of nf]) (simp add: readFile_def unit_written_def)
  qed
qed

lemma extends_files_update [simp]: "extends w (w\<lparr>files := fs\<rparr>)"
  by (simp add: extends_def)

lemma new_calls_files_update [simp]: "new_calls w (w\<lparr>files := fs\<rparr>) = []"
  by (simp add: new_calls_def)

lemma unit_written_extends [simp]: "extends w (unit_written k src dest file text w)"
  by (simp add: unit_written_def outputFile_def extends_def emit_def)

lemma unit_written_calls [simp]:
  "new_calls w (unit_written k src dest file text w) =
     [E_readFile k file, E_transpileJS k file None, E_outputFile k (new_file_path k src dest file)]"
  by (simp add: unit_written_def outputFile_def new_calls_def emit_def)

lemma unit_written_present:
  "present (unit_written k src dest file text w) p =
     (p = new_file_path k src dest file \<or> present w p)"
  by (auto simp: unit_written_def outputFile_def present_def update_conv' split: option.splits)

lemma transpile_units_extends:
  "transpile_units env k src dest params fmt units acc w = (r, w') \<Longrightarrow>
     extends w w' \<and> list_all (\<lambda>e. unit_kind e = Some k) (new_calls w w')
     \<and> fail_fast (new_calls w w') (error_of r)
     \<and> (isl r \<or> \<not> list_ex is_failure (new_calls w w'))"
proof (induction units arbitrary: acc w)
  case Nil
  then show ?case by (auto simp: error_of_def)
next
  case (Cons u rest)
  from Cons.prems show ?case
  proof (cases rule: transpile_units_Cons_cases)
    case read_failed
    then show ?thesis by (simp add: error_of_def)
  next
    case (transpile_failed e)
    let ?w1 = "emit (E_readFile k u) w"
    have "new_calls w w' = new_calls w ?w1 @ new_calls ?w1 w'"
      unfolding transpile_failed by (rule new_calls_trans) simp_all
    moreover have "extends w w'"
      unfolding transpile_failed by (rule extends_trans[of _ ?w1]) simp_all
    ultimately show ?thesis using transpile_failed by (simp add: error_of_def)
  next
    case (written nf)
    let ?w1 = "unit_written k src dest u (code nf) w"
    from Cons.IH[OF written] have
      e: "extends ?w1 w'" and
      a: "list_all (\<lambda>e. unit_kind e = Some k) (new_calls ?w1 w')" and
      f: "fail_fast (new_calls ?w1 w') (error_of r)" and
      n: "isl r \<or> \<not> list_ex is_failure (new_calls ?w1 w')"
      by simp_all
    have nc: "new_calls w w' = new_calls w ?w1 @ new_calls ?w1 w'"
      by (rule new_calls_trans) (simp_all add: e)
    have "extends w w'" by (rule extends_trans[of _ ?w1]) (simp_all add: e)
    then show ?thesis using nc a f n by simp
  qed
qed

lemma transpile_units_present:
  "transpile_units env k src dest params fmt units acc w = (r, w') \<Longrightarrow>
     (present w p \<longrightarrow> present w' p)
     \<and> (E_outputFile k' p \<in> set (new_calls w w') \<longrightarrow> present w' p)
     \<and> (present w' p \<longrightarrow> present w p \<or> E_outputFile k p \<in> set (new_calls w w'))"
proof (induction units arbitrary: acc w)
  case Nil
  then show ?case by auto
next
  case (Cons u rest)
  from Cons.prems show ?case
  proof (cases rule: transpile_units_Cons_cases)
    case read_failed
    then show ?thesis by (simp add: present_def)
  next
    case (transpile_failed e)
    then show ?thesis by (simp add: present_def new_calls_def)
  next
    case (written nf)
    let ?w1 = "unit_written k src dest u (code nf) w"
    from transpile_units_extends[OF written] have e: "extends ?w1 w'" by simp
    have nc: "new_calls w w' = new_calls w ?w1 @ new_calls ?w1 w'"
      by (rule new_calls_trans) (simp_all add: e)
    from Cons.IH[OF written] show ?thesis
      by (auto simp: nc unit_written_present)
  qed
qed

lemma transpile_units_written:
  "transpile_units env k src dest params fmt units acc w = (r, w') \<Longrightarrow>
     E_outputFile k' p \<in> set (new_calls w w') \<Longrightarrow>
     k' = k \<and> p \<in> new_file_path k src dest ` set units"
proof (induction units arbitrary: acc w)
  case Nil
  then show ?case by auto
next
  case (Cons u rest)
  from Cons.prems(1) show ?case
  proof (cases rule: transpile_units_Cons_cases)
    case read_failed
    with Cons.prems(2) show ?thesis by simp
  next
    case (transpile_failed e)
    with Cons.prems(2) show ?thesis by (simp add: new_calls_def)
  next
    case (written nf)
    let ?w1 = "unit_written k src dest u (code nf) w"
    from transpile_units_extends[OF written] have e: "extends ?w1 w'" by simp
    have nc: "new_calls w w' = new_calls w ?w1 @ new_calls ?w1 w'"
      by (rule new_calls_trans) (simp_all add: e)
    from Cons.prems(2) nc
    have "E_outputFile k' p \<in> set (new_calls w ?w1) \<or> E_outputFile k' p \<in> set (new_calls ?w1 w')"
      by simp
    then show ?thesis
    proof
      assume "E_outputFile k' p \<in> set (new_calls w ?w1)"
      then show ?thesis by simp
    next
      assume "E_outputFile k' p \<in> set (new_calls ?w1 w')"
      from Cons.IH[OF written this] show ?thesis by auto
    qed
  qed
qed

lemma transpile_units_done:
  "transpile_units env k src dest params fmt units acc w = (Inr acc', w') \<Longrightarrow>
     snd acc' = snd acc @ map (new_file_path k src dest) units
     \<and> (\<forall>f \<in> set units. E_transpileJS k f None \<in> set (new_calls w w')
            \<and> E_outputFile k (new_file_path k src dest f) \<in> set (new_calls w w'))"
proof (induction units arbitrary: acc w)
  case Nil
  then show ?case by auto
next
  case (Cons u rest)
  from Cons.prems show ?case
  proof (cases rule: transpile_units_Cons_cases)
    case read_failed
    then show ?thesis by simp
  next
    case (transpile_failed e)
    then show ?thesis by simp
  next
    case (written nf)
    let ?w1 = "unit_written k src dest u (code nf) w"
    from transpile_units_extends[OF written] have e: "extends ?w1 w'" by simp
    have nc: "new_calls w w' = new_calls w ?w1 @ new_calls ?w1 w'"
      by (rule new_calls_trans) (simp_all add: e)
    from Cons.IH[OF written] show ?thesis
      by (auto simp: nc)
  qed
qed

lemma present_remove: "present (remove q w) p = (p \<noteq> q \<and> present w p)"
  by (auto simp: present_def remove_def delete_conv' split: option.splits)

lemma extends_remove [simp]: "extends w (remove q w)"
  by (simp add: remove_def extends_def emit_def)

lemma new_calls_remove [simp]: "new_calls w (remove q w) = [E_remove q]"
  by (simp add: remove_def new_calls_def emit_def)

lemma remove_stale_extends:
  "extends w (remove_stale nbf prior w)
   \<and> new_calls w (remove_stale nbf prior w) = map E_remove (filter (\<lambda>f. f \<notin> set nbf) prior)"
proof (induction prior arbitrary: w)
  case Nil
  show ?case by simp
next
  case (Cons f prior)
  show ?case
  proof (cases "f \<in> set nbf")
    case True
    then show ?thesis using Cons.IH[of w] by simp
  next
    case False
    have e: "extends (remove f w) (remove_stale nbf prior (remove f w))"
      using Cons.IH[of "remove f w"] by simp
    have "new_calls w (remove_stale nbf prior (remove f w)) =
            new_calls w (remove f w) @ new_calls (remove f w) (remove_stale nbf prior (remove f w))"
      by (rule new_calls_trans) (simp_all add: e)
    then show ?thesis
      using False Cons.IH[of "remove f w"] extends_trans[OF extends_remove e] by simp
  qed
qed

lemma remove_stale_present:
  "present (remove_stale nbf prior w) p = (present w p \<and> \<not> (p \<in> set prior \<and> p \<notin> set nbf))"
  by (induction prior arbitrary: w) (auto simp: present_remove)

lemma finish_build_effect:
  "finish_build env src dest config result_logs w = (r, w') \<Longrightarrow>
     extends w w' \<and> list_all is_generateData (new_calls w w') \<and> files w' = files w"
  by (auto simp: finish_build_def split: option.splits)

lemma present_cong: "files w' = files w \<Longrightarrow> present w' p = present w p"
  by (simp add: present_def)

lemma units_start_extends [simp]: "extends w (units_start src dest w)"
  by (simp add: units_start_def extends_def emit_def)

lemma units_start_calls [simp]:
  "new_calls w (units_start src dest w) =
     [E_loopThroughFiles (path_join [src, ''module'']) (walk (path_join [src, ''module'']) w),
      E_loopThroughFiles (path_join [src, ''widget'']) (walk (path_join [src, ''widget'']) w),
      E_loopThroughFiles (path_join [dest, ''src'', ''widget'']) (walk (path_join [dest, ''src'', ''widget'']) w)]"
  by (simp add: units_start_def new_calls_def emit_def)

lemma units_start_files [simp]: "files (units_start src dest w) = files w"
  by (simp add: units_start_def)

lemma build_units_unfold:
  "build_units env src dest config ic als ipfsMap w =
     (case transpile_units env Module src dest (units_params src config ic als ipfsMap w) (format config)
             (filter is_source (walk (path_join [src, ''module'']) w)) ([], []) (units_start src dest w) of
        (Inl e, w4) \<Rightarrow> (Inl e, w4)
      | (Inr acc1, w4) \<Rightarrow>
     (case transpile_units env Widget src dest (units_params src config ic als ipfsMap w) (format config)
             (filter is_source (walk (path_join [src, ''widget'']) w)) acc1 w4 of
        (Inl e, w5) \<Rightarrow> (Inl e, w5)
      | (Inr acc2, w5) \<Rightarrow>
          finish_build env src dest config (fst acc2)
            (remove_stale (snd acc2) (walk (path_join [dest, ''src'', ''widget'']) w) w5)))"
  by (simp add: build_units_def loopThroughFiles_def walk_def units_start_def units_params_def
        cong: prod.case_cong sum.case_cong)

lemma build_units_cases:
  assumes "build_units env src dest config ic als ipfsMap w = (r, w')"
  obtains
    (module_failed) e where
      "transpile_units env Module src dest (units_params src config ic als ipfsMap w) (format config)
         (filter is_source (walk (path_join [src, ''module'']) w)) ([], []) (units_start src dest w)
         = (Inl e, w')"
      "r = Inl e"
  | (widget_failed) acc1 w4 e where
      "transpile_units env Module src dest (units_params src config ic als ipfsMap w) (format config)
         (filter is_source (walk (path_join [src, ''module'']) w)) ([], []) (units_start src dest w)
         = (Inr acc1, w4)"
      "transpile_units env Widget src dest (units_params src config ic als ipfsMap w) (format config)
         (filter is_source (walk (path_join [src, ''widget'']) w)) acc1 w4 = (Inl e, w')"
      "r = Inl e"
  | (reconciled) acc1 w4 acc2 w5 where
      "transpile_units env Module src dest (units_params src config ic als ipfsMap w) (format config)
         (filter is_source (walk (path_join [src, ''module'']) w)) ([], []) (units_start src dest w)
         = (Inr acc1, w4)"
      "transpile_units env Widget src dest (units_params src config ic als ipfsMap w) (format config)
         (filter is_source (walk (path_join [src, ''widget'']) w)) acc1 w4 = (Inr acc2, w5)"
      "finish_build env src dest config (fst acc2)
         (remove_stale (snd acc2) (walk (path_join [dest, ''src'', ''widget'']) w) w5) = (r, w')"
proof -
  let ?tm = "transpile_units env Module src dest (units_params src config ic als ipfsMap w) (format config)
         (filter is_source (walk (path_join [src, ''module'']) w)) ([], []) (units_start src dest w)"
  obtain r1 w4 where tm: "?tm = (r1, w4)" by (cases ?tm)
  show ?thesis
  proof (cases r1)
    case (Inl e)
    with tm assms show ?thesis
      by (intro module_failed[of e]) (simp_all add: build_units_unfold)
  next
    case (Inr acc1)
    let ?tw = "transpile_units env Widget src dest (units_params src config ic als ipfsMap w) (format config)
         (filter is_source (walk (path_join [src, ''widget'']) w)) acc1 w4"
    obtain r2 w5 where tw: "?tw = (r2, w5)" by (cases ?tw)
    show ?thesis
    proof (cases r2)
      case (Inl e)
      with tm tw Inr assms show ?thesis
        by (intro widget_failed[of acc1 w4 e]) (simp_all add: build_units_unfold)
    next
      case r2: (Inr acc2)
      with tm tw Inr assms show ?thesis
        by (intro reconciled[of acc1 w4 acc2 w5]) (simp_all add: build_units_unfold)
    qed
  qed
qed

lemma is_upload_pre_event: "is_upload x \<Longrightarrow> pre_event src x"
  by (cases x) simp_all

lemma updateIpfs_extends:
  assumes "updateIpfs env pwd dest opts w = (r, w')"
  shows "extends w w' \<and> list_all (pre_event pwd) (new_calls w w')
       \<and> E_readJson (path_join [pwd, ''ipfs.json'']) \<in> set (new_calls w w')"
proof -
  let ?m0 = "load_or_empty env (files w) (path_join [pwd, ''ipfs.json''])"
  let ?wb = "emit (E_loopThroughFiles (path_join [pwd, ''ipfs''])
              (filter (inside_dir (path_join [pwd, ''ipfs''])) (map fst (files w))))
         (emit (E_readJson (path_join [pwd, ''ipfs.json''])) w)"
  let ?ul = "upload_loop env pwd opts ?m0 (assets_of pwd (files w)) [] ?wb"
  obtain r1 wc where ul: "?ul = (r1, wc)" by (cases ?ul)
  have e1: "extends w ?wb" by (simp add: extends_def)
  have n1: "new_calls w ?wb = [E_readJson (path_join [pwd, ''ipfs.json'']),
      E_loopThroughFiles (path_join [pwd, ''ipfs''])
              (filter (inside_dir (path_join [pwd, ''ipfs''])) (map fst (files w)))]"
    by (simp add: new_calls_def)
  from upload_loop_extends[OF ul] have e2: "extends ?wb wc" and u2: "list_all is_upload (new_calls ?wb wc)"
    by simp_all
  have p2: "list_all (pre_event pwd) (new_calls ?wb wc)"
    using u2 by (auto simp: list_all_iff intro: is_upload_pre_event)
  show ?thesis
  proof (cases r1)
    case (Inl e)
    with ul assms have "w' = wc"
      by (simp add: updateIpfs_def load_ledger_eq list_assets_eq)
    then show ?thesis
      using new_calls_trans[OF e1 e2] extends_trans[OF e1 e2] n1 p2 by simp
  next
    case (Inr ups)
    with ul assms have pers: "persist_ledger env pwd dest ?m0 ups wc = (r, w')"
      by (simp add: updateIpfs_def load_ledger_eq list_assets_eq)
    then have e3: "extends wc w'" and p3: "list_all (pre_event pwd) (new_calls wc w')"
      by (auto simp: persist_ledger_def copy_def writeJson_def extends_def new_calls_def
            split: if_splits option.splits)
    have "new_calls w w' = new_calls w ?wb @ new_calls ?wb wc @ new_calls wc w'"
      using new_calls_trans[OF e1 extends_trans[OF e2 e3]] new_calls_trans[OF e2 e3] by simp
    then show ?thesis
      using extends_trans[OF e1 extends_trans[OF e2 e3]] n1 p2 p3 by simp
  qed
qed

lemma foldl_map_add: "foldl (++) a ms = a ++ foldl (++) Map.empty ms"
proof (induction ms arbitrary: a)
  case Nil
  show ?case by simp
next
  case (Cons m ms)
  have "foldl (++) (a ++ m) ms = (a ++ m) ++ foldl (++) Map.empty ms" by (rule Cons.IH)
  moreover have "foldl (++) (Map.empty ++ m) ms = (Map.empty ++ m) ++ foldl (++) Map.empty ms"
    by (rule Cons.IH)
  ultimately show ?case by simp
qed

lemma foldl_object_assign:
  "foldl object_assign a ms = (foldl (++) a ms)(''__proto__'' := a ''__proto__'')"
proof (induction ms arbitrary: a)
  case Nil
  show ?case by simp
next
  case (Cons m ms)
  have "foldl object_assign (object_assign a m) ms
          = (foldl (++) (object_assign a m) ms)(''__proto__'' := object_assign a m ''__proto__'')"
    by (rule Cons.IH)
  also have "\<dots> = (foldl (++) (a ++ m) ms)(''__proto__'' := a ''__proto__'')"
    by (subst foldl_map_add, subst (2) foldl_map_add)
       (auto simp: fun_eq_iff object_assign_def map_add_def split: option.splits)
  finally show ?case by simp
qed

lemma aliases_loop_eq:
  "aliases_loop env src srcs als w =
     (foldl object_assign als (map (\<lambda>a. load_or_empty env (files w) (path_join [src, a])) srcs),
      w\<lparr>calls := calls w @ map (\<lambda>a. E_readJson (path_join [src, a])) srcs\<rparr>)"
proof (induction srcs arbitrary: als w)
  case Nil
  show ?case by simp
next
  case (Cons a srcs)
  show ?case
    by (simp add: readJson_catch_eq Cons.IH emit_def)
qed

lemma buildApp_cases:
  assumes "buildApp env src dest network w = (r, w')"
  obtains
    (early) "isl r" "extends w w'" "list_all (pre_event src) (new_calls w w')"
  | (units) c ic als m w2 where
      "extends w w2" "list_all (pre_event src) (new_calls w w2)"
      "build_units env src dest c ic als m w2 = (r, w')"
proof -
  let ?w1 = "snd (aliases_loop env src
       (aliasesSrcs_of src (case readConfig env (files w) (path_join [src, ''bos.config.json'']) network of
              Inl e \<Rightarrow> None | Inr c \<Rightarrow> Some c)) Map.empty
       (emit (E_readConfig (path_join [src, ''bos.config.json'']) network) w))"
  have e1: "extends w ?w1"
    by (simp add: aliases_loop_eq extends_def)
  have p1: "list_all (pre_event src) (new_calls w ?w1)"
    by (auto simp add: aliases_loop_eq new_calls_def list_all_iff)
  show ?thesis
  proof (cases "readConfig env (files w) (path_join [src, ''bos.config.json'']) network")
    case (Inl e)
    with assms have "r = Inl (TypeError ''config'')" "w' = ?w1"
      by (simp_all add: buildApp_def split: prod.splits)
    with e1 p1 show ?thesis by (intro early) simp_all
  next
    case (Inr c)
    show ?thesis
    proof (cases "ipfs c")
      case None
      with Inr assms have "r = Inl (TypeError ''ipfs'')" "w' = ?w1"
        by (simp_all add: buildApp_def split: prod.splits)
      with e1 p1 show ?thesis by (intro early) simp_all
    next
      case (Some ic)
      let ?up = "updateIpfs env src dest
           \<lparr>uploadAPI_url = uploadApi ic, uploadAPI_headers = uploadApiHeaders ic\<rparr> ?w1"
      obtain r2 w2 where up: "?up = (r2, w2)" by (cases ?up)
      from updateIpfs_extends[OF up] have e2: "extends ?w1 w2"
        and p2: "list_all (pre_event src) (new_calls ?w1 w2)" by simp_all
      have e: "extends w w2" by (rule extends_trans[OF e1 e2])
      have p: "list_all (pre_event src) (new_calls w w2)"
        using new_calls_trans[OF e1 e2] p1 p2 by simp
      show ?thesis
      proof (cases r2)
        case (Inl err)
        with Inr Some up assms have "r = Inl err" "w' = w2"
          by (simp_all add: buildApp_def split: prod.splits)
        with e p show ?thesis by (intro early) simp_all
      next
        case r2: (Inr m)
        with Inr Some up assms
        have bu: "build_units env src dest c ic
                (fst (aliases_loop env src (aliasesSrcs_of src (Some c)) Map.empty
                   (emit (E_readConfig (path_join [src, ''bos.config.json'']) network) w))) m w2 = (r, w')"
          by (simp add: buildApp_def split: prod.splits)
        show ?thesis by (rule units[OF e p bu])
      qed
    qed
  qed
qed

lemma shape_module_failed:
  assumes t1: "transpile_units env Module src dest params fmt
         (filter is_source (walk (path_join [src, ''module'']) w)) ([], []) (units_start src dest w)
         = (Inl e, w')"
  shows "units_shape src dest w (Some e) w' (new_calls (units_start src dest w) w') [] []"
proof -
  let ?w3 = "units_start src dest w"
  note tm = transpile_units_extends[OF t1]
  from tm have e3: "extends ?w3 w'" by simp
  have ext: "extends w w'" by (rule extends_trans[OF units_start_extends e3])
  have nc: "new_calls w w' = new_calls w ?w3 @ new_calls ?w3 w'"
    by (rule new_calls_trans[OF units_start_extends e3])
  have a: "list_all (\<lambda>e. unit_kind e = Some Module) (new_calls ?w3 w')" using tm by simp
  have b: "fail_fast (new_calls ?w3 w') (Some e)" using tm by (simp add: error_of_def)
  have c: "present w' p \<and> p \<in> range (new_file_path k src dest)"
    if "E_outputFile k p \<in> set (new_calls ?w3 w')" for k p
  proof -
    from transpile_units_present[OF t1, of p k] that have "present w' p" by simp
    moreover from transpile_units_written[OF t1 that] have "p \<in> range (new_file_path k src dest)"
      by auto
    ultimately show ?thesis by simp
  qed
  show ?thesis
    unfolding units_shape_def using ext nc a b c by simp
qed


lemma shape_widget_failed:
  assumes t1: "transpile_units env Module src dest params fmt
         (filter is_source (walk (path_join [src, ''module'']) w)) ([], []) (units_start src dest w)
         = (Inr acc1, w4)"
      and t2: "transpile_units env Widget src dest params fmt ws acc1 w4 = (Inl e, w')"
  shows "units_shape src dest w (Some e) w'
           (new_calls (units_start src dest w) w4) (new_calls w4 w') []"
proof -
  let ?w3 = "units_start src dest w"
  note tm = transpile_units_extends[OF t1]
  note tw = transpile_units_extends[OF t2]
  from tm have e3: "extends ?w3 w4" by simp
  from tw have e4: "extends w4 w'" by simp
  have ext: "extends w w'"
    by (rule extends_trans[OF units_start_extends extends_trans[OF e3 e4]])
  have nc: "new_calls w w' = new_calls w ?w3 @ new_calls ?w3 w4 @ new_calls w4 w'"
    using new_calls_trans[OF units_start_extends extends_trans[OF e3 e4]]
      new_calls_trans[OF e3 e4] by simp
  have a: "list_all (\<lambda>e. unit_kind e = Some Module) (new_calls ?w3 w4)" using tm by simp
  have a': "list_all (\<lambda>e. unit_kind e = Some Widget) (new_calls w4 w')" using tw by simp
  have nf: "\<not> list_ex is_failure (new_calls ?w3 w4)" using tm by simp
  have "fail_fast (new_calls w4 w') (Some e)" using tw by (simp add: error_of_def)
  then have b: "fail_fast (new_calls ?w3 w4 @ new_calls w4 w') (Some e)"
    using fail_fast_no_failure[OF nf] by simp
  have d: "E_transpileJS Module f None \<in> set (new_calls ?w3 w4)
        \<and> E_outputFile Module (new_file_path Module src dest f) \<in> set (new_calls ?w3 w4)"
    if "f \<in> set (filter is_source (walk (path_join [src, ''module'']) w))" for f
    using transpile_units_done[OF t1] that by blast
  have c: "present w' p \<and> p \<in> range (new_file_path k src dest)"
    if o: "E_outputFile k p \<in> set (new_calls ?w3 w4) \<or> E_outputFile k p \<in> set (new_calls w4 w')"
    for k p
    using o
  proof
    assume m: "E_outputFile k p \<in> set (new_calls ?w3 w4)"
    from transpile_units_present[OF t1, of p k] m have "present w4 p" by simp
    with transpile_units_present[OF t2, of p k] have "present w' p" by simp
    moreover from transpile_units_written[OF t1 m] have "p \<in> range (new_file_path k src dest)"
      by auto
    ultimately show ?thesis by simp
  next
    assume m: "E_outputFile k p \<in> set (new_calls w4 w')"
    from transpile_units_present[OF t2, of p k] m have "present w' p" by simp
    moreover from transpile_units_written[OF t2 m] have "p \<in> range (new_file_path k src dest)"
      by auto
    ultimately show ?thesis by simp
  qed
  show ?thesis
    unfolding units_shape_def using ext nc a a' b c d by simp
qed


lemma shape_reconciled:
  assumes t1: "transpile_units env Module src dest params fmt
         (filter is_source (walk (path_join [src, ''module'']) w)) ([], []) (units_start src dest w)
         = (Inr acc1, w4)"
      and t2: "transpile_units env Widget src dest params fmt ws acc1 w4 = (Inr acc2, w5)"
      and t3: "finish_build env src dest config (fst acc2)
         (remove_stale (snd acc2) (walk (path_join [dest, ''src'', ''widget'']) w) w5) = (r, w')"
  shows "units_shape src dest w (error_of r) w'
           (new_calls (units_start src dest w) w4) (new_calls w4 w5)
           (new_calls w5 (remove_stale (snd acc2) (walk (path_join [dest, ''src'', ''widget'']) w) w5)
            @ new_calls (remove_stale (snd acc2) (walk (path_join [dest, ''src'', ''widget'']) w) w5) w')"
proof -
  let ?ms = "filter is_source (walk (path_join [src, ''module'']) w)"
  let ?prior = "walk (path_join [dest, ''src'', ''widget'']) w"
  let ?w3 = "units_start src dest w"
  let ?w6 = "remove_stale (snd acc2) ?prior w5"
  let ?M = "new_calls ?w3 w4"
  let ?W = "new_calls w4 w5"
  let ?R = "new_calls w5 ?w6 @ new_calls ?w6 w'"
  note tm = transpile_units_extends[OF t1]
  note tw = transpile_units_extends[OF t2]
  note fb = finish_build_effect[OF t3]
  from tm have e3: "extends ?w3 w4" by simp
  from tw have e4: "extends w4 w5" by simp
  have e5: "extends w5 ?w6" using remove_stale_extends[of w5 "snd acc2" ?prior] by simp
  have n5: "new_calls w5 ?w6 = map E_remove (filter (\<lambda>f. f \<notin> set (snd acc2)) ?prior)"
    using remove_stale_extends[of w5 "snd acc2" ?prior] by simp
  from fb have e6: "extends ?w6 w'" by simp
  from fb have g6: "list_all is_generateData (new_calls ?w6 w')" by simp
  from fb have f6: "files w' = files ?w6" by simp
  have e56: "extends w5 w'" by (rule extends_trans[OF e5 e6])
  have e46: "extends w4 w'" by (rule extends_trans[OF e4 e56])
  have e36: "extends ?w3 w'" by (rule extends_trans[OF e3 e46])
  have ext: "extends w w'" by (rule extends_trans[OF units_start_extends e36])
  have nc: "new_calls w w' = new_calls w ?w3 @ ?M @ ?W @ ?R"
    using new_calls_trans[OF units_start_extends e36] new_calls_trans[OF e3 e46]
      new_calls_trans[OF e4 e56] new_calls_trans[OF e5 e6] by simp
  have a: "list_all (\<lambda>e. unit_kind e = Some Module) ?M" using tm by simp
  have a': "list_all (\<lambda>e. unit_kind e = Some Widget) ?W" using tw by simp
  have gen_not_remove: "\<not> is_remove x \<Longrightarrow> is_generateData x \<Longrightarrow> x \<noteq> E_remove p" for x p
    by auto
  have r1: "list_all (\<lambda>e. is_remove e \<or> is_generateData e) (new_calls w5 ?w6)"
    by (simp add: n5 list_all_iff)
  have r2: "list_all (\<lambda>e. is_remove e \<or> is_generateData e) (new_calls ?w6 w')"
    using g6 by (simp add: list_all_iff)
  have a'': "list_all (\<lambda>e. is_remove e \<or> is_generateData e) ?R" using r1 r2 by simp
  have nfM: "\<not> list_ex is_failure ?M" using tm by simp
  have nfW: "\<not> list_ex is_failure ?W" using tw by simp
  have nfR: "\<not> list_ex is_failure ?R"
  proof -
    have "\<not> is_failure x" if "is_remove x \<or> is_generateData x" for x
      using that by (cases x) auto
    with a'' show ?thesis by (auto simp: list_ex_iff list_all_iff)
  qed
  have "fail_fast (?R @ []) (error_of r)"
    using fail_fast_no_failure[OF nfR, of "[]" "error_of r"] by simp
  then have "fail_fast ?R (error_of r)" by simp
  then have "fail_fast (?W @ ?R) (error_of r)"
    using fail_fast_no_failure[OF nfW, of ?R "error_of r"] by simp
  then have b: "fail_fast (?M @ ?W @ ?R) (error_of r)"
    using fail_fast_no_failure[OF nfM, of "?W @ ?R" "error_of r"] by simp
  have d: "E_transpileJS Module f None \<in> set ?M
        \<and> E_outputFile Module (new_file_path Module src dest f) \<in> set ?M"
    if "f \<in> set ?ms" for f
    using transpile_units_done[OF t1] that by blast
  have nbf1: "snd acc1 = map (new_file_path Module src dest) ?ms"
    using transpile_units_done[OF t1] by simp
  have nbf2: "snd acc2 = snd acc1 @ map (new_file_path Widget src dest) ws"
    using transpile_units_done[OF t2] by simp
  have pres: "present w' p = (present w5 p \<and> \<not> (p \<in> set ?prior \<and> p \<notin> set (snd acc2)))" for p
    using present_cong[OF f6, of p] remove_stale_present[of "snd acc2" ?prior w5 p] by simp
  have remR: "E_remove p \<in> set ?R \<longleftrightarrow> p \<in> set ?prior \<and> p \<notin> set (snd acc2)" for p
  proof -
    have "E_remove p \<notin> set (new_calls ?w6 w')"
    proof
      assume "E_remove p \<in> set (new_calls ?w6 w')"
      with g6 have "is_generateData (E_remove p)" unfolding list_all_iff by blast
      then show False by simp
    qed
    then show ?thesis by (auto simp: n5)
  qed
  have written_in: "p \<in> set (snd acc2) \<and> present w5 p \<and> p \<in> range (new_file_path k src dest)"
    if o: "E_outputFile k p \<in> set ?M \<or> E_outputFile k p \<in> set ?W" for k p
    using o
  proof
    assume m: "E_outputFile k p \<in> set ?M"
    from transpile_units_written[OF t1 m] have k: "k = Module" "p \<in> new_file_path Module src dest ` set ?ms"
      by simp_all
    from transpile_units_present[OF t1, of p k] m have "present w4 p" by simp
    with transpile_units_present[OF t2, of p k] have "present w5 p" by simp
    with k show ?thesis by (auto simp: nbf1 nbf2)
  next
    assume m: "E_outputFile k p \<in> set ?W"
    from transpile_units_written[OF t2 m] have k: "k = Widget" "p \<in> new_file_path Widget src dest ` set ws"
      by simp_all
    from transpile_units_present[OF t2, of p k] m have "present w5 p" by simp
    with k show ?thesis by (auto simp: nbf2)
  qed
  have c: "present w' p \<and> E_remove p \<notin> set ?R \<and> p \<in> range (new_file_path k src dest)"
    if o: "E_outputFile k p \<in> set ?M \<or> E_outputFile k p \<in> set ?W" for k p
    using written_in[OF o] remR[of p] pres[of p] by blast
  have in_written: "\<exists>k. E_outputFile k p \<in> set ?M \<or> E_outputFile k p \<in> set ?W"
    if "p \<in> set (snd acc2)" for p
  proof -
    from that have "p \<in> new_file_path Module src dest ` set ?ms
        \<or> p \<in> new_file_path Widget src dest ` set ws"
      by (auto simp: nbf1 nbf2)
    then show ?thesis
    proof
      assume "p \<in> new_file_path Module src dest ` set ?ms"
      then obtain f where "f \<in> set ?ms" "p = new_file_path Module src dest f" by blast
      with transpile_units_done[OF t1] show ?thesis by blast
    next
      assume "p \<in> new_file_path Widget src dest ` set ws"
      then obtain f where "f \<in> set ws" "p = new_file_path Widget src dest f" by blast
      with transpile_units_done[OF t2] show ?thesis by blast
    qed
  qed
  have s: "E_remove p \<in> set ?R \<and> \<not> present w' p"
    if "p \<in> set ?prior" "\<forall>k. E_outputFile k p \<notin> set ?M \<and> E_outputFile k p \<notin> set ?W" for p
  proof -
    from that(2) in_written[of p] have "p \<notin> set (snd acc2)" by blast
    with that(1) remR[of p] pres[of p] show ?thesis by blast
  qed
  have c': "\<forall>k p. E_outputFile k p \<in> set (?M @ ?W) \<longrightarrow>
            present w' p \<and> E_remove p \<notin> set ?R \<and> p \<in> range (new_file_path k src dest)"
    using c by simp
  have s': "\<forall>p. error_of r = None \<longrightarrow> p \<in> set ?prior \<longrightarrow>
            (\<forall>k. E_outputFile k p \<notin> set (?M @ ?W)) \<longrightarrow>
            E_remove p \<in> set ?R \<and> \<not> present w' p"
    using s by simp
  have d': "\<forall>f. (?W \<noteq> [] \<or> error_of r = None) \<longrightarrow> f \<in> set ?ms \<longrightarrow>
            E_transpileJS Module f None \<in> set ?M
            \<and> E_outputFile Module (new_file_path Module src dest f) \<in> set ?M"
    using d by blast
  show ?thesis
    unfolding units_shape_def
    by (intro conjI ext nc a a' a'' b d' c' s')
qed

lemma build_units_shape:
  assumes bu: "build_units env src dest config ic als ipfsMap w = (r, w')"
  shows "\<exists>M W R. units_shape src dest w (error_of r) w' M W R"
  using bu
proof (cases rule: build_units_cases)
  case (module_failed e)
  from shape_module_failed[OF module_failed(1)] module_failed(2) show ?thesis
    by (auto simp: error_of_def)
next
  case (widget_failed acc1 w4 e)
  from shape_widget_failed[OF widget_failed(1) widget_failed(2)] widget_failed(3) show ?thesis
    by (auto simp: error_of_def)
next
  case (reconciled acc1 w4 acc2 w5)
  from shape_reconciled[OF reconciled(1) reconciled(2) reconciled(3)] show ?thesis
    by blast
qed

lemma pre_event_facts:
  assumes "list_all (pre_event src) evs"
  shows "\<not> list_ex is_failure evs"
    and "list_all (\<lambda>e. unit_kind e = None) evs"
    and "E_outputFile k p \<notin> set evs"
    and "E_remove p \<notin> set evs"
    and "E_loopThroughFiles d found \<in> set evs \<Longrightarrow> d = path_join [src, ''ipfs'']"
proof -
  have a: "\<not> is_failure x \<and> unit_kind x = None \<and> x \<noteq> E_outputFile k p \<and> x \<noteq> E_remove p
           \<and> (x = E_loopThroughFiles d found \<longrightarrow> d = path_join [src, ''ipfs''])"
    if "pre_event src x" for x
    using that by (cases x) auto
  from assms have b: "\<forall>x \<in> set evs. pre_event src x" by (simp add: list_all_iff)
  show "\<not> list_ex is_failure evs" using a b by (auto simp: list_ex_iff)
  show "list_all (\<lambda>e. unit_kind e = None) evs" using a b by (auto simp: list_all_iff)
  show "E_outputFile k p \<notin> set evs" using a b by blast
  show "E_remove p \<notin> set evs" using a b by blast
  show "d = path_join [src, ''ipfs'']" if "E_loopThroughFiles d found \<in> set evs"
    using a b that by blast
qed

lemma buildApp_shape:
  assumes run: "buildApp env src dest network w = (r, w')"
  obtains
    (early) "isl r" "extends w w'" "list_all (pre_event src) (new_calls w w')"
  | (units) w2 M W R where
      "list_all (pre_event src) (new_calls w w2)"
      "new_calls w w' = new_calls w w2 @ new_calls w2 (units_start src dest w2) @ M @ W @ R"
      "units_shape src dest w2 (error_of r) w' M W R"
  using run
proof (cases rule: buildApp_cases)
  case early
  then show ?thesis by (rule that(1))
next
  case (units c ic als m w2)
  from build_units_shape[OF units(3)] obtain M W R
    where sh: "units_shape src dest w2 (error_of r) w' M W R" by blast
  then have e: "extends w2 w'"
    and n: "new_calls w2 w' = new_calls w2 (units_start src dest w2) @ M @ W @ R"
    by (simp_all add: units_shape_def)
  have "new_calls w w' = new_calls w w2 @ new_calls w2 w'"
    by (rule new_calls_trans[OF units(1) e])
  with n have "new_calls w w' = new_calls w w2 @ new_calls w2 (units_start src dest w2) @ M @ W @ R"
    by simp
  from that(2)[OF units(2) this sh] show ?thesis .
qed

lemma units_shape_batches:
  assumes "units_shape src dest w r w' M W R"
  shows "list_all (\<lambda>e. unit_kind e = Some Module) M"
    and "list_all (\<lambda>e. unit_kind e = Some Widget) W"
    and "list_all (\<lambda>e. is_remove e \<or> is_generateData e) R"
    and "fail_fast (M @ W @ R) r"
  using assms by (simp_all add: units_shape_def)

lemma units_shape_modules_done:
  assumes "units_shape src dest w r w' M W R" "W \<noteq> [] \<or> r = None"
    "f \<in> set (filter is_source (walk (path_join [src, ''module'']) w))"
  shows "E_transpileJS Module f None \<in> set M"
    and "E_outputFile Module (new_file_path Module src dest f) \<in> set M"
  using assms unfolding units_shape_def by blast+

lemma units_shape_written:
  assumes "units_shape src dest w r w' M W R" "E_outputFile k p \<in> set (M @ W)"
  shows "present w' p" and "E_remove p \<notin> set R" and "p \<in> range (new_file_path k src dest)"
  using assms unfolding units_shape_def by blast+

lemma units_shape_stale:
  assumes "units_shape src dest w None w' M W R"
    "p \<in> set (walk (path_join [dest, ''src'', ''widget'']) w)"
    "\<forall>k. E_outputFile k p \<notin> set (M @ W)"
  shows "E_remove p \<in> set R" and "\<not> present w' p"
  using assms unfolding units_shape_def by blast+

lemma remove_or_generate_facts:
  assumes "list_all (\<lambda>e. is_remove e \<or> is_generateData e) R"
  shows "list_all (\<lambda>e. unit_kind e = None) R"
    and "E_outputFile k p \<notin> set R"
    and "E_loopThroughFiles d found \<notin> set R"
    and "\<not> list_ex is_failure R"
proof -
  have a: "unit_kind x = None \<and> x \<noteq> E_outputFile k p \<and> x \<noteq> E_loopThroughFiles d found
           \<and> \<not> is_failure x"
    if "is_remove x \<or> is_generateData x" for x
    using that by (cases x) auto
  from assms have b: "\<forall>x \<in> set R. is_remove x \<or> is_generateData x" by (simp add: list_all_iff)
  show "list_all (\<lambda>e. unit_kind e = None) R" using a b by (auto simp: list_all_iff)
  show "E_outputFile k p \<notin> set R" using a b by blast
  show "E_loopThroughFiles d found \<notin> set R" using a b by blast
  show "\<not> list_ex is_failure R" using a b by (auto simp: list_ex_iff)
qed

lemma unit_batch_facts:
  assumes "list_all (\<lambda>e. unit_kind e = Some k) B"
  shows "E_remove p \<notin> set B"
    and "E_loopThroughFiles d found \<notin> set B"
    and "E_outputFile k' q \<in> set B \<Longrightarrow> k' = k"
proof -
  from assms have b: "\<forall>x \<in> set B. unit_kind x = Some k" by (simp add: list_all_iff)
  show "E_remove p \<notin> set B" using b by fastforce
  show "E_loopThroughFiles d found \<notin> set B" using b by fastforce
  show "k' = k" if "E_outputFile k' q \<in> set B" using b that by fastforce
qed

lemma buildApp_output_origin:
  assumes run: "buildApp env src dest network w = (r, w')"
      and out: "E_outputFile k p \<in> set (new_calls w w')"
  shows "p \<in> range (new_file_path k src dest) \<and> present w' p"
  using run
proof (cases rule: buildApp_shape)
  case early
  from pre_event_facts(3)[OF early(3)] out show ?thesis by blast
next
  case (units w2 M W R)
  have "E_outputFile k p \<notin> set (new_calls w w2)" by (rule pre_event_facts(3)[OF units(1)])
  moreover have "E_outputFile k p \<notin> set R"
    by (rule remove_or_generate_facts(2)[OF units_shape_batches(3)[OF units(3)]])
  ultimately have "E_outputFile k p \<in> set (M @ W)"
    using out units(2) by auto
  from units_shape_written[OF units(3) this] show ?thesis by simp
qed

lemma modules_first_append:
  assumes a: "list_all (\<lambda>e. unit_kind e \<noteq> Some Widget) A"
      and b: "list_all (\<lambda>e. unit_kind e \<noteq> Some Module) B"
  shows "modules_first (A @ B)"
proof -
  have "dropWhile (\<lambda>e. unit_kind e \<noteq> Some Widget) (A @ B)
          = dropWhile (\<lambda>e. unit_kind e \<noteq> Some Widget) B"
    using a by (intro dropWhile_append2) (simp add: list_all_iff)
  moreover have "set (dropWhile (\<lambda>e. unit_kind e \<noteq> Some Widget) B) \<subseteq> set B"
    by (auto dest: set_dropWhileD)
  ultimately show ?thesis
    using b by (auto simp: modules_first_def list_all_iff)
qed

lemma kind_facts:
  "list_all (\<lambda>e. unit_kind e = None) A \<Longrightarrow> list_all (\<lambda>e. unit_kind e \<noteq> Some k) A"
  "list_all (\<lambda>e. unit_kind e = Some Module) A \<Longrightarrow> list_all (\<lambda>e. unit_kind e \<noteq> Some Widget) A"
  "list_all (\<lambda>e. unit_kind e = Some Widget) A \<Longrightarrow> list_all (\<lambda>e. unit_kind e \<noteq> Some Module) A"
  by (auto simp: list_all_iff)

lemma split_on_parts: "x \<in> set (split_on d s) \<Longrightarrow> d \<notin> set x"
proof (induction s arbitrary: x)
  case Nil
  then show ?case by simp
next
  case (Cons c s)
  then show ?case
    by (cases "split_on d s") (auto split: if_splits)
qed

lemma join_with_chars: "set (join_with sep xs) \<subseteq> set sep \<union> \<Union> (set ` set xs)"
  by (induction sep xs rule: join_with.induct) auto

lemma widget_file_name_flat: "path_sep \<notin> set (widget_file_name src file)"
proof -
  let ?s = "drop_last_n (length (path_extname file))
             (replace_first [path_sep] ''.'' (path_relative (path_join [src, ''widget'']) file))"
  have "path_sep \<notin> set (join_with ''.'' (split_on path_sep ?s))"
    using join_with_chars[of "''.''" "split_on path_sep ?s"] split_on_parts[of _ path_sep ?s]
    by (auto simp: path_sep_def)
  then show ?thesis by (simp add: widget_file_name_def path_sep_def)
qed

lemma upload_loop_value:
  "upload_loop env pwd opts m fs ups w = (Inr ups', w') \<Longrightarrow> map_of ups' k \<noteq> map_of ups k \<Longrightarrow>
     \<exists>cid. uploadToIPFS env (files w) (path_join [pwd, ''ipfs'', k]) opts = Inr cid
           \<and> map_of ups' k = Some cid"
proof (induction fs arbitrary: ups w)
  case Nil
  then show ?case by auto
next
  case (Cons f fs)
  let ?w1 = "emit (E_uploadToIPFS (path_join [pwd, ''ipfs'', f])) w"
  show ?case
  proof (cases "truthy (m f)")
    case True
    with Cons.prems have "upload_loop env pwd opts m fs ups w = (Inr ups', w')" by simp
    from Cons.IH[OF this Cons.prems(2)] show ?thesis .
  next
    case False
    show ?thesis
    proof (cases "uploadToIPFS env (files w) (path_join [pwd, ''ipfs'', f]) opts")
      case (Inl e)
      with False Cons.prems show ?thesis by auto
    next
      case (Inr cid)
      with False Cons.prems
      have run: "upload_loop env pwd opts m fs (AList.update f cid ups) ?w1 = (Inr ups', w')"
        by simp
      have fl: "files ?w1 = files w" by simp
      show ?thesis
      proof (cases "map_of ups' k = map_of (AList.update f cid ups) k")
        case same: True
        with Cons.prems(2) have "k = f" by (auto simp: update_conv' split: if_splits)
        with same Inr show ?thesis by (simp add: update_conv')
      next
        case differs: False
        from Cons.IH[OF run differs] show ?thesis by (simp add: fl)
      qed
    qed
  qed
qed

lemma load_or_empty_env [simp]:
  "load_or_empty (env\<lparr>transpileJS := g\<rparr>) fs p = load_or_empty env fs p"
  by (simp add: load_or_empty_def split: option.splits)

lemma aliases_loop_env:
  "aliases_loop (env\<lparr>transpileJS := g\<rparr>) src srcs als w = aliases_loop env src srcs als w"
  by (simp add: aliases_loop_eq)

lemma upload_loop_env:
  "upload_loop (env\<lparr>transpileJS := g\<rparr>) pwd opts m fs ups w = upload_loop env pwd opts m fs ups w"
proof (induction fs arbitrary: ups w)
  case Nil
  show ?case by simp
next
  case (Cons f fs)
  show ?case
    by (cases "uploadToIPFS env (files w) (path_join [pwd, ''ipfs'', f]) opts")
       (simp_all add: Cons.IH)
qed

lemma updateIpfs_env:
  "updateIpfs (env\<lparr>transpileJS := g\<rparr>) pwd dest opts w = updateIpfs env pwd dest opts w"
proof -
  have p: "persist_ledger (env\<lparr>transpileJS := g\<rparr>) pwd dest m ups v = persist_ledger env pwd dest m ups v"
    for m ups v
    by (simp add: persist_ledger_def writeJson_def)
  show ?thesis
    by (simp add: updateIpfs_def load_ledger_eq list_assets_eq upload_loop_env p
          cong: prod.case_cong sum.case_cong)
qed

lemma transpile_units_env:
  assumes g: "\<And>content opts. g content params opts = transpileJS env content params opts"
  shows "transpile_units (env\<lparr>transpileJS := g\<rparr>) k src dest params fmt units acc w
           = transpile_units env k src dest params fmt units acc w"
proof (induction units arbitrary: acc w)
  case Nil
  show ?case by simp
next
  case (Cons u rest)
  show ?case
    by (simp add: g Cons.IH cong: prod.case_cong sum.case_cong)
qed

lemma finish_build_env:
  "finish_build (env\<lparr>transpileJS := g\<rparr>) src dest config result_logs w
     = finish_build env src dest config result_logs w"
  by (simp add: finish_build_def split: option.splits)

lemma build_units_env:
  assumes g: "\<And>content params opts. p_aliases params = als \<Longrightarrow>
                g content params opts = transpileJS env content params opts"
  shows "build_units (env\<lparr>transpileJS := g\<rparr>) src dest config ic als ipfsMap w
           = build_units env src dest config ic als ipfsMap w"
proof -
  have "g content (units_params src config ic als ipfsMap w) opts
          = transpileJS env content (units_params src config ic als ipfsMap w) opts" for content opts
    by (rule g) (simp add: units_params_def)
  then have t: "transpile_units (env\<lparr>transpileJS := g\<rparr>) k src dest
                  (units_params src config ic als ipfsMap w) fmt units acc v
                = transpile_units env k src dest (units_params src config ic als ipfsMap w) fmt units acc v"
    for k fmt units acc v
    by (rule transpile_units_env)
  show ?thesis
    by (simp add: build_units_unfold t finish_build_env cong: prod.case_cong sum.case_cong)
qed

lemma demo_path_proto: "path_join [''app'', ''proto.json''] = ''app/proto.json''"
  by code_simp

subsection \<open>Facts about the concrete environment\<close>

lemma run_collapse: "run = (fst run, snd run)"
  by simp

lemma run_succeeded: "\<not> isl (fst run) \<Longrightarrow> run = (Inr (projr (fst run)), snd run)"
  by (cases run; cases "fst run") auto

lemma demo_path_one: "path_join [''app'', ''one.json''] = ''app/one.json''"
  by code_simp

lemma demo_path_two: "path_join [''app'', ''two.json''] = ''app/two.json''"
  by code_simp

lemma demo_path_doubled:
  "path_join [''app'', path_join [''app'', ''aliases.json'']] = ''app/app/aliases.json''"
  by code_simp

lemma demo_ledger_path: "path_join [''app'', ''ipfs.json''] = ''app/ipfs.json''"
  by code_simp

lemma fresh_assets: "assets_of ''app'' (files fresh_world) = [''logo.png'']"
  by code_simp

lemma fresh_asset_path: "path_join [''app'', ''ipfs'', ''logo.png''] = ''app/ipfs/logo.png''"
  by code_simp

lemma fresh_ledger:
  "load_or_empty demo_env (files fresh_world) (path_join [''app'', ''ipfs.json'']) = Map.empty"
  by (simp add: demo_ledger_path load_or_empty_def fresh_world_def)

lemma fresh_first_run:
  "fst (updateIpfs demo_env ''app'' ''out'' demo_options fresh_world)
     = Inr [''logo.png'' \<mapsto> ''cid:app/ipfs/logo.png'']"
proof -
  have up: "uploadToIPFS demo_env fs p opts = Inr (''cid:'' @ p)" for fs p opts
    by (simp add: demo_env_def)
  have src: "map_of (files fresh_world) (path_join [''app'', ''ipfs.json'']) = None"
    by (simp add: demo_ledger_path fresh_world_def)
  show ?thesis
    by (simp add: updateIpfs_def load_ledger_eq list_assets_eq fresh_ledger
          fresh_assets truthy_def up fresh_asset_path
          persist_ledger_def merge_uploads_eq copy_def writeJson_def update_conv')
qed

section \<open>The claims\<close>

text \<open>
  Claim C1. If loading the configuration fails, the build call ends in an error instead
  of a result, the file system is left as it was, and no asset is published, nothing is
  transpiled and no file is written, copied or removed. (The error that surfaces is the
  \<open>TypeError\<close> of reading \<open>config.ipfs\<close> on the undefined configuration; the only call
  made after the failed load is the read of the default alias file.)
\<close>

theorem config_failure_short_circuit:
  assumes "readConfig env (files w) (path_join [src, ''bos.config.json'']) network = Inl e"
  shows "fst (buildApp env src dest network w) = Inl (TypeError ''config'')
       \<and> files (snd (buildApp env src dest network w)) = files w
       \<and> \<not> list_ex side_effect (new_calls w (snd (buildApp env src dest network w)))"
  using assms
  by (simp add: buildApp_def aliasesSrcs_of_def aliases_loop_eq new_calls_def)

theorem config_failure_short_circuit_witness:
  "readConfig demo_env (files demo_world) (path_join [''nope'', ''bos.config.json'']) ''mainnet''
     = Inl (ConfigError ''nope/bos.config.json'')
   \<and> fst (buildApp demo_env ''nope'' ''out'' ''mainnet'' demo_world) = Inl (TypeError ''config'')
   \<and> files (snd (buildApp demo_env ''nope'' ''out'' ''mainnet'' demo_world)) = files demo_world
   \<and> \<not> list_ex side_effect
         (new_calls demo_world (snd (buildApp demo_env ''nope'' ''out'' ''mainnet'' demo_world)))"
proof -
  have h: "readConfig demo_env (files demo_world) (path_join [''nope'', ''bos.config.json'']) ''mainnet''
     = Inl (ConfigError ''nope/bos.config.json'')"
    by code_simp
  from config_failure_short_circuit[OF h, of "''out''"] h show ?thesis by simp
qed

text \<open>
  Claim C2, amended. When the publisher returns, every path whose loaded ledger entry is
  a non-empty identifier keeps that entry, whatever the asset directory holds; an entry
  of the returned ledger that differs from the loaded one belongs to an enumerated asset
  whose loaded entry was missing or empty, that asset was uploaded in this run, and the
  entry is the identifier that the content store returned for it.
  (As stated, for every key of the loaded ledger, the claim fails on a key recorded with
  an empty identifier: the truthiness test of line 189 takes it for unpublished.)
\<close>

theorem ledger_monotonic:
  assumes run: "updateIpfs env pwd dest options w = (Inr newIpfsMap, w')"
  shows "(\<forall>p v. fst (load_ledger env pwd w) p = Some v \<longrightarrow> v \<noteq> [] \<longrightarrow> newIpfsMap p = Some v)
       \<and> (\<forall>p. newIpfsMap p \<noteq> fst (load_ledger env pwd w) p \<longrightarrow>
             \<not> truthy (fst (load_ledger env pwd w) p)
             \<and> p \<in> set (fst (list_assets pwd w))
             \<and> E_uploadToIPFS (path_join [pwd, ''ipfs'', p]) \<in> set (new_calls w w')
             \<and> (\<exists>cid. uploadToIPFS env (files w) (path_join [pwd, ''ipfs'', p]) options = Inr cid
                      \<and> newIpfsMap p = Some cid))"
proof -
  let ?m0 = "load_or_empty env (files w) (path_join [pwd, ''ipfs.json''])"
  let ?wa = "emit (E_readJson (path_join [pwd, ''ipfs.json''])) w"
  let ?wb = "emit (E_loopThroughFiles (path_join [pwd, ''ipfs''])
              (filter (inside_dir (path_join [pwd, ''ipfs''])) (map fst (files w)))) ?wa"
  from run obtain ups wc where
    loop: "upload_loop env pwd options ?m0 (assets_of pwd (files w)) [] ?wb = (Inr ups, wc)" and
    pers: "persist_ledger env pwd dest ?m0 ups wc = (Inr newIpfsMap, w')"
    by (rule updateIpfs_Inr)
  from persist_ledger_Inr[OF pers] have m1: "newIpfsMap = ?m0 ++ map_of ups" by simp
  have e1: "extends w ?wb" by (simp add: extends_def)
  from upload_loop_extends[OF loop] have e2: "extends ?wb wc" by simp
  from persist_ledger_extends[OF pers] have e3: "extends wc w'" by simp
  have "new_calls w w' = new_calls w ?wb @ new_calls ?wb wc @ new_calls wc w'"
    using new_calls_trans[OF e1 extends_trans[OF e2 e3]] new_calls_trans[OF e2 e3] by simp
  then have nc: "set (new_calls ?wb wc) \<subseteq> set (new_calls w w')" by auto
  have keep: "newIpfsMap p = Some v" if "?m0 p = Some v" "v \<noteq> []" for p v
  proof -
    from that have t: "truthy (?m0 p)" by (simp add: truthy_def)
    have "map_of ups p = None"
    proof (rule ccontr)
      assume "map_of ups p \<noteq> None"
      then have "map_of ups p \<noteq> map_of [] p" by simp
      from upload_loop_change[OF loop this] t show False by simp
    qed
    then show ?thesis using m1 that by (simp add: map_add_def)
  qed
  have change: "\<not> truthy (?m0 p) \<and> p \<in> set (assets_of pwd (files w))
        \<and> E_uploadToIPFS (path_join [pwd, ''ipfs'', p]) \<in> set (new_calls w w')
        \<and> (\<exists>cid. uploadToIPFS env (files w) (path_join [pwd, ''ipfs'', p]) options = Inr cid
                 \<and> newIpfsMap p = Some cid)"
    if "newIpfsMap p \<noteq> ?m0 p" for p
  proof -
    from that m1 have "map_of ups p \<noteq> None"
      by (cases "map_of ups p") (simp_all add: map_add_def)
    then have neq: "map_of ups p \<noteq> map_of [] p" by simp
    from upload_loop_value[OF loop neq] obtain cid where
      cid: "uploadToIPFS env (files w) (path_join [pwd, ''ipfs'', p]) options = Inr cid"
        "map_of ups p = Some cid"
      by auto
    from cid(2) m1 have "newIpfsMap p = Some cid" by (simp add: map_add_def)
    with cid(1) upload_loop_change[OF loop neq] nc show ?thesis by blast
  qed
  have l1: "fst (load_ledger env pwd w) = ?m0" by (simp add: load_ledger_eq)
  have l2: "fst (list_assets pwd w) = assets_of pwd (files w)" by (simp add: list_assets_eq)
  show ?thesis
    unfolding l1 l2 using keep change by blast
qed

theorem ledger_monotonic_witness:
  "\<not> isl (fst (updateIpfs demo_env ''app'' ''out'' demo_options demo_world))
   \<and> fst (load_ledger demo_env ''app'' demo_world) ''old.png'' = Some ''cid0''
   \<and> map_of (files demo_world) ''app/ipfs/old.png'' = Some ''changed''
   \<and> projr (fst (updateIpfs demo_env ''app'' ''out'' demo_options demo_world)) ''old.png''
        = Some ''cid0''
   \<and> fst (load_ledger demo_env ''app'' demo_world) ''logo.png'' = None
   \<and> uploadToIPFS demo_env (files demo_world) (path_join [''app'', ''ipfs'', ''logo.png''])
        demo_options = Inr ''cid:app/ipfs/logo.png''
   \<and> projr (fst (updateIpfs demo_env ''app'' ''out'' demo_options demo_world)) ''logo.png''
        = Some ''cid:app/ipfs/logo.png''"
proof -
  let ?run = "updateIpfs demo_env ''app'' ''out'' demo_options demo_world"
  have ok: "\<not> isl (fst ?run)" by code_simp
  have l: "fst (load_ledger demo_env ''app'' demo_world) ''old.png'' = Some ''cid0''" by code_simp
  have f: "map_of (files demo_world) ''app/ipfs/old.png'' = Some ''changed''" by code_simp
  have n: "fst (load_ledger demo_env ''app'' demo_world) ''logo.png'' = None" by code_simp
  have u: "uploadToIPFS demo_env (files demo_world) (path_join [''app'', ''ipfs'', ''logo.png''])
        demo_options = Inr ''cid:app/ipfs/logo.png''" by code_simp
  have g: "projr (fst ?run) ''logo.png'' \<noteq> None" by code_simp
  note mono = ledger_monotonic[OF run_succeeded[OF ok]]
  from mono l have a: "projr (fst ?run) ''old.png'' = Some ''cid0''" by blast
  from g n have "projr (fst ?run) ''logo.png'' \<noteq> fst (load_ledger demo_env ''app'' demo_world) ''logo.png''"
    by simp
  with mono obtain cid where
    "uploadToIPFS demo_env (files demo_world) (path_join [''app'', ''ipfs'', ''logo.png''])
        demo_options = Inr cid" "projr (fst ?run) ''logo.png'' = Some cid"
    by blast
  with u have b: "projr (fst ?run) ''logo.png'' = Some ''cid:app/ipfs/logo.png''" by simp
  from ok l f a n u b show ?thesis by simp
qed

theorem ledger_monotonic_counterexample:
  "fst (load_ledger demo_env ''app'' empty_entry_world) ''logo.png'' = Some []
   \<and> \<not> isl (fst (updateIpfs demo_env ''app'' ''out'' demo_options empty_entry_world))
   \<and> projr (fst (updateIpfs demo_env ''app'' ''out'' demo_options empty_entry_world)) ''logo.png''
        = Some ''cid:app/ipfs/logo.png''"
  by code_simp

text \<open>
  Claim C3. The output name of a module is meant to flatten every separator of the
  source-relative path. On the module \<open>a/b/c.ts\<close> the code replaces the first separator
  only and writes \<open>a.b/c.module.js\<close>, where the flattened name is \<open>a.b.c.module.js\<close>;
  the widget loop, which also splits and joins, gives \<open>a.b.c.jsx\<close> on the same path.
  With one separator the two agree, as in the spec's examples.
\<close>

theorem module_name_not_flattened:
  "module_file_name ''app'' ''app/module/a/b/c.ts'' = ''a.b/c.module.js''
   \<and> new_file_path Module ''app'' ''out'' ''app/module/a/b/c.ts'' = ''out/src/widget/a.b/c.module.js''
   \<and> flattened_name ''.module.js'' (path_relative (path_join [''app'', ''module'']) ''app/module/a/b/c.ts'')
        = ''a.b.c.module.js''
   \<and> widget_file_name ''app'' ''app/widget/a/b/c.ts'' = ''a.b.c.jsx''
   \<and> module_file_name ''app'' ''app/module/foo/bar.ts'' = ''foo.bar.module.js''
   \<and> widget_file_name ''app'' ''app/widget/x/y.jsx'' = ''x.y.jsx''"
  by code_simp

text \<open>
  Claim C4. In a build that succeeds, the walk of the output directory is recorded
  before any output file of this build is written; afterwards every path of that
  snapshot that this build did not write has been removed and is absent, and every path
  this build wrote is present and was never removed.
\<close>

theorem reconcile_converges:
  assumes run: "buildApp env src dest network w = (Inr result_logs, w')"
  shows "\<exists>pre prior post.
           new_calls w w' = pre @ E_loopThroughFiles (path_join [dest, ''src'', ''widget'']) prior # post
         \<and> \<not> list_ex is_outputFile pre
         \<and> (\<forall>p \<in> set prior. (\<forall>k. E_outputFile k p \<notin> set post) \<longrightarrow>
                E_remove p \<in> set post \<and> \<not> present w' p)
         \<and> (\<forall>k p. E_outputFile k p \<in> set post \<longrightarrow>
                present w' p \<and> E_remove p \<notin> set (new_calls w w'))"
  using run
proof (cases rule: buildApp_shape)
  case early
  then show ?thesis by simp
next
  case (units w2 M W R)
  let ?od = "path_join [dest, ''src'', ''widget'']"
  let ?pre = "new_calls w w2 @ [E_loopThroughFiles (path_join [src, ''module'']) (walk (path_join [src, ''module'']) w2),
      E_loopThroughFiles (path_join [src, ''widget'']) (walk (path_join [src, ''widget'']) w2)]"
  let ?post = "M @ W @ R"
  from units(3) have sh: "units_shape src dest w2 None w' M W R" by (simp add: error_of_def)
  note bt = units_shape_batches[OF sh]
  have nc: "new_calls w w' = ?pre @ E_loopThroughFiles ?od (walk ?od w2) # ?post"
    using units(2) by simp
  have noR: "E_outputFile k p \<notin> set R" for k p
    by (rule remove_or_generate_facts(2)[OF bt(3)])
  have p1: "\<not> list_ex is_outputFile ?pre"
  proof -
    have "\<not> is_outputFile x" if "x \<in> set (new_calls w w2)" for x
    proof
      assume "is_outputFile x"
      then obtain k p where "x = E_outputFile k p" by (cases x) auto
      with that pre_event_facts(3)[OF units(1), of k p] show False by simp
    qed
    then show ?thesis by (auto simp: list_ex_iff)
  qed
  have p2: "E_remove p \<in> set ?post \<and> \<not> present w' p"
    if "p \<in> set (walk ?od w2)" "\<forall>k. E_outputFile k p \<notin> set ?post" for p
  proof -
    from that(2) have "\<forall>k. E_outputFile k p \<notin> set (M @ W)" by simp
    from units_shape_stale[OF sh that(1) this] show ?thesis by simp
  qed
  have p3: "present w' p \<and> E_remove p \<notin> set (new_calls w w')"
    if "E_outputFile k p \<in> set ?post" for k p
  proof -
    from that noR[of k p] have o: "E_outputFile k p \<in> set (M @ W)" by simp
    note wr = units_shape_written[OF sh o]
    have "E_remove p \<notin> set (new_calls w w2)" by (rule pre_event_facts(4)[OF units(1)])
    moreover have "E_remove p \<notin> set M" by (rule unit_batch_facts(1)[OF bt(1)])
    moreover have "E_remove p \<notin> set W" by (rule unit_batch_facts(1)[OF bt(2)])
    ultimately have "E_remove p \<notin> set (new_calls w w')"
      using wr(2) by (simp add: units(2))
    with wr(1) show ?thesis by simp
  qed
  show ?thesis
    using nc p1 p2 p3 by blast
qed

theorem reconcile_converges_witness:
  "fst (buildApp demo_env ''app'' ''out'' ''mainnet'' demo_world) = Inr []
   \<and> present demo_world ''out/src/widget/old.jsx''
   \<and> \<not> present (snd (buildApp demo_env ''app'' ''out'' ''mainnet'' demo_world)) ''out/src/widget/old.jsx''
   \<and> present (snd (buildApp demo_env ''app'' ''out'' ''mainnet'' demo_world)) ''out/src/widget/x.y.jsx''
   \<and> (\<exists>pre prior post.
         new_calls demo_world (snd (buildApp demo_env ''app'' ''out'' ''mainnet'' demo_world))
           = pre @ E_loopThroughFiles (path_join [''out'', ''src'', ''widget'']) prior # post
         \<and> \<not> list_ex is_outputFile pre
         \<and> (\<forall>p \<in> set prior. (\<forall>k. E_outputFile k p \<notin> set post) \<longrightarrow>
                E_remove p \<in> set post
                \<and> \<not> present (snd (buildApp demo_env ''app'' ''out'' ''mainnet'' demo_world)) p)
         \<and> (\<forall>k p. E_outputFile k p \<in> set post \<longrightarrow>
                present (snd (buildApp demo_env ''app'' ''out'' ''mainnet'' demo_world)) p
                \<and> E_remove p \<notin> set (new_calls demo_world
                      (snd (buildApp demo_env ''app'' ''out'' ''mainnet'' demo_world)))))"
proof -
  let ?run = "buildApp demo_env ''app'' ''out'' ''mainnet'' demo_world"
  have ok: "fst ?run = Inr []" by code_simp
  then have h: "?run = (Inr [], snd ?run)" by (cases ?run) simp
  have a: "present demo_world ''out/src/widget/old.jsx''" by code_simp
  have b: "\<not> present (snd ?run) ''out/src/widget/old.jsx''" by code_simp
  have c: "present (snd ?run) ''out/src/widget/x.y.jsx''" by code_simp
  from reconcile_converges[OF h] ok a b c show ?thesis by blast
qed

text \<open>
  Claim C5, amended. After a run of the publisher that succeeded, a second run on the
  state it left, with the same enumerated asset paths, uploads nothing, changes no file
  and returns the same ledger, provided the first run's ledger holds no empty
  identifier for an enumerated asset and the JSON codec reads back the ledger it wrote.
  (As stated the claim fails when the content store returns an empty identifier: the
  entry is falsy and the asset is uploaded again.)
\<close>

theorem publish_idempotent:
  assumes first: "updateIpfs env pwd dest options w = (Inr m1, w1)"
      and same: "fst (list_assets pwd w1) = fst (list_assets pwd w)"
      and cids: "\<forall>p \<in> set (fst (list_assets pwd w)). m1 p \<noteq> Some []"
      and codec: "parseJson env (stringifyJson env m1) = Some m1"
  shows "fst (updateIpfs env pwd dest options w1) = Inr m1
       \<and> files (snd (updateIpfs env pwd dest options w1)) = files w1
       \<and> \<not> list_ex is_upload (new_calls w1 (snd (updateIpfs env pwd dest options w1)))"
proof -
  let ?P = "path_join [pwd, ''ipfs.json'']"
  let ?m0 = "load_or_empty env (files w) ?P"
  let ?wb = "emit (E_loopThroughFiles (path_join [pwd, ''ipfs''])
              (filter (inside_dir (path_join [pwd, ''ipfs''])) (map fst (files w))))
         (emit (E_readJson ?P) w)"
  from first obtain ups wc where
    loop: "upload_loop env pwd options ?m0 (assets_of pwd (files w)) [] ?wb = (Inr ups, wc)" and
    pers: "persist_ledger env pwd dest ?m0 ups wc = (Inr m1, w1)"
    by (rule updateIpfs_Inr)
  from upload_loop_files[OF loop] have fl: "files wc = files w" by simp
  have cover: "truthy (?m0 f) \<or> map_of ups f \<noteq> None" if "f \<in> set (assets_of pwd (files w))" for f
    using upload_loop_cover[OF loop that] .
  have ch: "map_of ups k = None" if "truthy (?m0 k)" for k
  proof (rule ccontr)
    assume "map_of ups k \<noteq> None"
    then have "map_of ups k \<noteq> map_of [] k" by simp
    from upload_loop_change[OF loop this] that show False by simp
  qed
  from persist_ledger_Inr[OF pers] have
    m1: "m1 = ?m0 ++ map_of ups" and
    nowrite: "ups = [] \<longrightarrow> w1 = wc" and
    written: "ups \<noteq> [] \<longrightarrow> map_of (files w1) ?P = Some (stringifyJson env m1)"
    by simp_all
  have reload: "load_or_empty env (files w1) ?P = m1"
  proof (cases "ups = []")
    case True
    with nowrite fl m1 show ?thesis by simp
  next
    case False
    with written codec show ?thesis by (simp add: load_or_empty_def)
  qed
  have assets: "assets_of pwd (files w1) = assets_of pwd (files w)"
    using same by (simp add: list_assets_eq)
  have all_truthy: "\<forall>f \<in> set (assets_of pwd (files w1)). truthy (m1 f)"
  proof
    fix f assume f: "f \<in> set (assets_of pwd (files w1))"
    then have fin: "f \<in> set (assets_of pwd (files w))" using assets by simp
    with cids have ne: "m1 f \<noteq> Some []" by (simp add: list_assets_eq)
    from cover[OF fin] have "truthy (?m0 f) \<or> map_of ups f \<noteq> None" .
    then have "m1 f \<noteq> None"
    proof
      assume t: "truthy (?m0 f)"
      from ch[OF t] have "map_of ups f = None" .
      with t m1 show ?thesis by (auto simp: map_add_def truthy_def split: option.splits)
    next
      assume "map_of ups f \<noteq> None"
      with m1 show ?thesis by (auto simp: map_add_def)
    qed
    with ne show "truthy (m1 f)" by (auto simp: truthy_def split: option.splits)
  qed
  let ?wb1 = "emit (E_loopThroughFiles (path_join [pwd, ''ipfs''])
              (filter (inside_dir (path_join [pwd, ''ipfs''])) (map fst (files w1))))
         (emit (E_readJson ?P) w1)"
  have second: "updateIpfs env pwd dest options w1 = (Inr m1, ?wb1)"
    using upload_loop_all_truthy[OF all_truthy, of env pwd options "[]" ?wb1]
    by (simp add: updateIpfs_def load_ledger_eq list_assets_eq reload persist_ledger_def
          merge_uploads_eq)
  show ?thesis
    by (simp add: second new_calls_def)
qed

theorem publish_idempotent_witness:
  "\<not> isl (fst (updateIpfs demo_env ''app'' ''out'' demo_options fresh_world))
   \<and> fst (list_assets ''app'' (snd (updateIpfs demo_env ''app'' ''out'' demo_options fresh_world)))
        = fst (list_assets ''app'' fresh_world)
   \<and> fst (updateIpfs demo_env ''app'' ''out'' demo_options
             (snd (updateIpfs demo_env ''app'' ''out'' demo_options fresh_world)))
        = fst (updateIpfs demo_env ''app'' ''out'' demo_options fresh_world)
   \<and> \<not> list_ex is_upload
          (new_calls (snd (updateIpfs demo_env ''app'' ''out'' demo_options fresh_world))
             (snd (updateIpfs demo_env ''app'' ''out'' demo_options
                    (snd (updateIpfs demo_env ''app'' ''out'' demo_options fresh_world)))))"
proof -
  let ?run = "updateIpfs demo_env ''app'' ''out'' demo_options fresh_world"
  let ?m1 = "[''logo.png'' \<mapsto> ''cid:app/ipfs/logo.png'']"
  have ok: "\<not> isl (fst ?run)" by (simp add: fresh_first_run)
  have first: "?run = (Inr ?m1, snd ?run)"
    using fresh_first_run by (cases ?run) simp
  have same: "fst (list_assets ''app'' (snd ?run)) = fst (list_assets ''app'' fresh_world)"
    by code_simp
  have la: "fst (list_assets ''app'' fresh_world) = [''logo.png'']" by code_simp
  have cids: "\<forall>p \<in> set (fst (list_assets ''app'' fresh_world)). ?m1 p \<noteq> Some []"
    by (simp add: la)
  have codec: "parseJson demo_env (stringifyJson demo_env ?m1) = Some ?m1"
    by (simp add: demo_env_def demo_stringify_def demo_keys_def demo_parse_def)
  from publish_idempotent[OF first same cids codec] ok same show ?thesis
    by (simp add: fresh_first_run)
qed

theorem publish_idempotent_counterexample:
  "\<not> isl (fst (updateIpfs empty_cid_env ''app'' ''out'' demo_options fresh_world))
   \<and> fst (list_assets ''app'' (snd (updateIpfs empty_cid_env ''app'' ''out'' demo_options fresh_world)))
        = fst (list_assets ''app'' fresh_world)
   \<and> list_ex is_upload
        (new_calls (snd (updateIpfs empty_cid_env ''app'' ''out'' demo_options fresh_world))
           (snd (updateIpfs empty_cid_env ''app'' ''out'' demo_options
                  (snd (updateIpfs empty_cid_env ''app'' ''out'' demo_options fresh_world)))))"
  by code_simp

text \<open>
  Claim C6. In every build, no call of the module batch follows a call of the widget
  batch, and once a widget call is made every catalogued module has been transpiled and
  written; a transpile call that fails is the last call of the build and its error is
  the build's result; and every output file written during the build, also before a
  failure, is present at the end.
\<close>

theorem batches_fail_fast:
  assumes run: "buildApp env src dest network w = (r, w')"
  shows "modules_first (new_calls w w')
       \<and> (\<forall>ms. E_loopThroughFiles (path_join [src, ''module'']) ms \<in> set (new_calls w w') \<longrightarrow>
              list_ex (\<lambda>e. unit_kind e = Some Widget) (new_calls w w') \<longrightarrow>
              (\<forall>f \<in> set (filter is_source ms).
                 E_transpileJS Module f None \<in> set (new_calls w w')
                 \<and> E_outputFile Module (new_file_path Module src dest f) \<in> set (new_calls w w')))
       \<and> (\<forall>pre k f e post. new_calls w w' = pre @ E_transpileJS k f (Some e) # post \<longrightarrow>
              post = [] \<and> r = Inl e)
       \<and> (\<forall>k p. E_outputFile k p \<in> set (new_calls w w') \<longrightarrow> present w' p)"
proof -
  have written: "present w' p" if "E_outputFile k p \<in> set (new_calls w w')" for k p
    using buildApp_output_origin[OF run that] by simp
  have main: "modules_first (new_calls w w')
       \<and> fail_fast (new_calls w w') (error_of r)
       \<and> (\<forall>ms. E_loopThroughFiles (path_join [src, ''module'']) ms \<in> set (new_calls w w') \<longrightarrow>
              list_ex (\<lambda>e. unit_kind e = Some Widget) (new_calls w w') \<longrightarrow>
              (\<forall>f \<in> set (filter is_source ms).
                 E_transpileJS Module f None \<in> set (new_calls w w')
                 \<and> E_outputFile Module (new_file_path Module src dest f) \<in> set (new_calls w w')))"
    using run
  proof (cases rule: buildApp_shape)
    case early
    note pf = pre_event_facts[OF early(3)]
    have "modules_first (new_calls w w' @ [])"
      by (rule modules_first_append) (simp_all add: kind_facts(1)[OF pf(2)])
    moreover have "fail_fast (new_calls w w' @ []) (error_of r)"
      using fail_fast_no_failure[OF pf(1), of "[]" "error_of r"] by simp
    moreover have "\<not> list_ex (\<lambda>e. unit_kind e = Some Widget) (new_calls w w')"
      using pf(2) by (auto simp: list_ex_iff list_all_iff)
    ultimately show ?thesis by simp
  next
    case (units w2 M W R)
    let ?md = "path_join [src, ''module'']"
    let ?L = "new_calls w2 (units_start src dest w2)"
    note pf = pre_event_facts[OF units(1)]
    note bt = units_shape_batches[OF units(3)]
    note rf = remove_or_generate_facts[OF bt(3)]
    have kL: "list_all (\<lambda>e. unit_kind e = None) ?L" by simp
    have nfL: "\<not> list_ex is_failure ?L" by simp
    have nc: "new_calls w w' = (new_calls w w2 @ ?L @ M) @ (W @ R)" using units(2) by simp
    have mf: "modules_first ((new_calls w w2 @ ?L @ M) @ (W @ R))"
    proof (rule modules_first_append)
      show "list_all (\<lambda>e. unit_kind e \<noteq> Some Widget) (new_calls w w2 @ ?L @ M)"
        using kind_facts(1)[OF pf(2), of Widget] kind_facts(1)[OF kL, of Widget]
          kind_facts(2)[OF bt(1)] by simp
      show "list_all (\<lambda>e. unit_kind e \<noteq> Some Module) (W @ R)"
        using kind_facts(3)[OF bt(2)] kind_facts(1)[OF rf(1), of Module] by simp
    qed
    have "fail_fast (?L @ M @ W @ R) (error_of r)"
      using fail_fast_no_failure[OF nfL, of "M @ W @ R" "error_of r"] bt(4) by simp
    then have ff: "fail_fast (new_calls w w') (error_of r)"
      using fail_fast_no_failure[OF pf(1), of "?L @ M @ W @ R" "error_of r"] units(2) by simp
    have processed: "E_transpileJS Module f None \<in> set (new_calls w w')
                 \<and> E_outputFile Module (new_file_path Module src dest f) \<in> set (new_calls w w')"
      if l: "E_loopThroughFiles ?md ms \<in> set (new_calls w w')"
        and x: "list_ex (\<lambda>e. unit_kind e = Some Widget) (new_calls w w')"
        and f: "f \<in> set (filter is_source ms)" for ms f
    proof -
      have "E_loopThroughFiles ?md ms \<notin> set (new_calls w w2)"
        using pf(5)[of ?md ms] dir_distinct(1)[of src] by blast
      moreover have "E_loopThroughFiles ?md ms \<notin> set M" by (rule unit_batch_facts(2)[OF bt(1)])
      moreover have "E_loopThroughFiles ?md ms \<notin> set W" by (rule unit_batch_facts(2)[OF bt(2)])
      moreover have "E_loopThroughFiles ?md ms \<notin> set R" by (rule rf(3))
      ultimately have "E_loopThroughFiles ?md ms \<in> set ?L" using l units(2) by simp
      then have ms: "ms = walk ?md w2"
        using dir_distinct(2)[of src] dir_distinct(3)[of src dest] by auto
      have "W \<noteq> []"
      proof
        assume "W = []"
        with x units(2) have "list_ex (\<lambda>e. unit_kind e = Some Widget) (new_calls w w2 @ ?L @ M @ R)"
          by simp
        then show False
          using pf(2) kL bt(1) rf(1) by (auto simp: list_ex_iff list_all_iff)
      qed
      then have "W \<noteq> [] \<or> error_of r = None" by simp
      from units_shape_modules_done[OF units(3) this] f ms
      show ?thesis by (simp add: units(2))
    qed
    show ?thesis using mf ff processed unfolding nc[symmetric] by blast
  qed
  have ff: "post = [] \<and> r = Inl e"
    if "new_calls w w' = pre @ E_transpileJS k f (Some e) # post" for pre k f e post
  proof -
    from main have "fail_fast (new_calls w w') (error_of r)" by simp
    from fail_fast_decomp[OF this that] show ?thesis
      by (cases r) (simp_all add: error_of_def)
  qed
  show ?thesis using main written ff by blast
qed

theorem batches_fail_fast_witness:
  "fst (buildApp demo_env ''app'' ''out'' ''mainnet'' failing_world) = Inl (TranspileError ''bad'')
   \<and> present (snd (buildApp demo_env ''app'' ''out'' ''mainnet'' failing_world))
        ''out/src/widget/m1.module.js''
   \<and> E_readFile Module ''app/module/m3.js''
        \<notin> set (new_calls failing_world (snd (buildApp demo_env ''app'' ''out'' ''mainnet'' failing_world)))
   \<and> modules_first
        (new_calls failing_world (snd (buildApp demo_env ''app'' ''out'' ''mainnet'' failing_world)))
   \<and> E_outputFile Module (new_file_path Module ''app'' ''out'' ''app/module/util.js'')
        \<in> set (new_calls demo_world (snd (buildApp demo_env ''app'' ''out'' ''mainnet'' demo_world)))"
proof -
  let ?bad = "buildApp demo_env ''app'' ''out'' ''mainnet'' failing_world"
  let ?run = "buildApp demo_env ''app'' ''out'' ''mainnet'' demo_world"
  note bad = batches_fail_fast[OF run_collapse[of ?bad]]
  note good = batches_fail_fast[OF run_collapse[of ?run]]
  have n: "new_calls failing_world (snd ?bad) =
     [E_readConfig ''app/bos.config.json'' ''mainnet'',
      E_readJson ''app/app/aliases.json'', E_readJson ''app/ipfs.json'',
      E_loopThroughFiles ''app/ipfs'' [],
      E_loopThroughFiles ''app/module''
        [''app/module/m1.js'', ''app/module/m2.js'', ''app/module/m3.js''],
      E_loopThroughFiles ''app/widget'' [''app/widget/w.jsx''],
      E_loopThroughFiles ''out/src/widget'' [],
      E_readFile Module ''app/module/m1.js'',
      E_transpileJS Module ''app/module/m1.js'' None,
      E_outputFile Module ''out/src/widget/m1.module.js'',
      E_readFile Module ''app/module/m2.js'']
     @ E_transpileJS Module ''app/module/m2.js'' (Some (TranspileError ''bad'')) # []"
    by code_simp
  from bad n have r: "fst ?bad = Inl (TranspileError ''bad'')" by blast
  have "E_outputFile Module ''out/src/widget/m1.module.js'' \<in> set (new_calls failing_world (snd ?bad))"
    unfolding n by simp
  with bad have p: "present (snd ?bad) ''out/src/widget/m1.module.js''" by blast
  have s: "E_readFile Module ''app/module/m3.js'' \<notin> set (new_calls failing_world (snd ?bad))"
    unfolding n by simp
  from bad have mf: "modules_first (new_calls failing_world (snd ?bad))" by blast
  have l: "E_loopThroughFiles (path_join [''app'', ''module''])
             [''app/module/a/b/c.ts'', ''app/module/util.js'']
           \<in> set (new_calls demo_world (snd ?run))" by code_simp
  have x: "list_ex (\<lambda>e. unit_kind e = Some Widget) (new_calls demo_world (snd ?run))" by code_simp
  have f: "''app/module/util.js'' \<in> set (filter is_source [''app/module/a/b/c.ts'', ''app/module/util.js''])"
    by code_simp
  from good l x f
  have g: "E_outputFile Module (new_file_path Module ''app'' ''out'' ''app/module/util.js'')
        \<in> set (new_calls demo_world (snd ?run))" by blast
  from r p s mf g show ?thesis by simp
qed

text \<open>
  Claim C7, amended. The alias table is the left-to-right fold of the alias sources, a
  later source overwriting the keys of the earlier ones and a source that cannot be
  loaded counting as an empty mapping, except that a key \<open>__proto__\<close> is never taken
  from a source; merging \<open>{a:1}\<close> and \<open>{a:2, b:3}\<close> gives \<open>{a:2, b:3}\<close>. Reading the
  sources changes no file. Once the configuration has loaded, the build goes on to the
  asset ledger whatever the sources hold, and the table that every transpile call of
  the build is given is this fold of the sources that the configuration names (of the
  default source when it names none): giving the transpiler that table in place of the
  one it is passed changes nothing in the build.
  (As stated the claim fails on a source with a key \<open>__proto__\<close>, which the assignment
  of line 32 does not copy.)
\<close>

theorem aliases_ordered_fold:
  "fst (aliases_loop env src srcs Map.empty w) =
      (alias_fold (map (\<lambda>a. load_or_empty env (files w) (path_join [src, a])) srcs))
        (''__proto__'' := None)
   \<and> files (snd (aliases_loop env src srcs Map.empty w)) = files w
   \<and> (load_or_empty env (files w) (path_join [src, s1]) = [''a'' \<mapsto> ''1''] \<longrightarrow>
      load_or_empty env (files w) (path_join [src, s2]) = [''a'' \<mapsto> ''2'', ''b'' \<mapsto> ''3''] \<longrightarrow>
      fst (aliases_loop env src [s1, s2] Map.empty w) = [''a'' \<mapsto> ''2'', ''b'' \<mapsto> ''3''])
   \<and> (readConfig env (files w) (path_join [src, ''bos.config.json'']) network = Inr c \<longrightarrow>
      ipfs c = Some ic \<longrightarrow>
      E_readJson (path_join [src, ''ipfs.json''])
        \<in> set (new_calls w (snd (buildApp env src dest network w))))
   \<and> (readConfig env (files w) (path_join [src, ''bos.config.json'']) network = Inr c \<longrightarrow>
      buildApp
        (env\<lparr>transpileJS := (\<lambda>content params opts.
            transpileJS env content
              (params\<lparr>p_aliases :=
                 (alias_fold
                    (map (\<lambda>a. load_or_empty env (files w) (path_join [src, a]))
                       (case aliases c of
                          None \<Rightarrow> [path_join [src, ''aliases.json'']]
                        | Some named \<Rightarrow> named)))
                   (''__proto__'' := None)\<rparr>)
              opts)\<rparr>)
        src dest network w
      = buildApp env src dest network w)"
proof -
  have a: "fst (aliases_loop env src srcs Map.empty w) =
      (alias_fold (map (\<lambda>a. load_or_empty env (files w) (path_join [src, a])) srcs))
        (''__proto__'' := None)"
    by (simp add: aliases_loop_eq alias_fold_def foldl_object_assign)
  have b: "files (snd (aliases_loop env src srcs Map.empty w)) = files w"
    by (simp add: aliases_loop_eq)
  have c: "fst (aliases_loop env src [s1, s2] Map.empty w) = [''a'' \<mapsto> ''2'', ''b'' \<mapsto> ''3'']"
    if "load_or_empty env (files w) (path_join [src, s1]) = [''a'' \<mapsto> ''1'']"
       "load_or_empty env (files w) (path_join [src, s2]) = [''a'' \<mapsto> ''2'', ''b'' \<mapsto> ''3'']"
    using that by (auto simp add: aliases_loop_eq object_assign_def fun_eq_iff map_add_def)
  have d: "E_readJson (path_join [src, ''ipfs.json''])
        \<in> set (new_calls w (snd (buildApp env src dest network w)))"
    if cfg: "readConfig env (files w) (path_join [src, ''bos.config.json'']) network = Inr c"
      and ic: "ipfs c = Some ic"
  proof -
    let ?w1 = "snd (aliases_loop env src (aliasesSrcs_of src (Some c)) Map.empty
                 (emit (E_readConfig (path_join [src, ''bos.config.json'']) network) w))"
    let ?up = "updateIpfs env src dest
           \<lparr>uploadAPI_url = uploadApi ic, uploadAPI_headers = uploadApiHeaders ic\<rparr> ?w1"
    obtain r2 w2 where up: "?up = (r2, w2)" by (cases ?up)
    have e1: "extends w ?w1" by (simp add: aliases_loop_eq extends_def)
    from updateIpfs_extends[OF up] have e2: "extends ?w1 w2"
      and m: "E_readJson (path_join [src, ''ipfs.json'']) \<in> set (new_calls ?w1 w2)" by simp_all
    have m2: "E_readJson (path_join [src, ''ipfs.json'']) \<in> set (new_calls w w2)"
      using new_calls_trans[OF e1 e2] m by simp
    show ?thesis
    proof (cases r2)
      case (Inl err)
      with cfg ic up have "snd (buildApp env src dest network w) = w2"
        by (simp add: buildApp_def case_prod_beta)
      with m2 show ?thesis by simp
    next
      case (Inr ipfsMap)
      let ?bu = "build_units env src dest c ic
                (fst (aliases_loop env src (aliasesSrcs_of src (Some c)) Map.empty
                   (emit (E_readConfig (path_join [src, ''bos.config.json'']) network) w))) ipfsMap w2"
      obtain r3 w3 where bu: "?bu = (r3, w3)" by (cases ?bu)
      from build_units_shape[OF bu] have e3: "extends w2 w3" by (auto simp: units_shape_def)
      from Inr cfg ic up bu have "snd (buildApp env src dest network w) = w3"
        by (simp add: buildApp_def case_prod_beta)
      with m2 new_calls_trans[OF extends_trans[OF e1 e2] e3] show ?thesis by simp
    qed
  qed
  have e: "buildApp
        (env\<lparr>transpileJS := (\<lambda>content params opts.
            transpileJS env content
              (params\<lparr>p_aliases :=
                 (alias_fold
                    (map (\<lambda>a. load_or_empty env (files w) (path_join [src, a]))
                       (case aliases c of
                          None \<Rightarrow> [path_join [src, ''aliases.json'']]
                        | Some named \<Rightarrow> named)))
                   (''__proto__'' := None)\<rparr>)
              opts)\<rparr>)
        src dest network w
      = buildApp env src dest network w"
    if cfg: "readConfig env (files w) (path_join [src, ''bos.config.json'']) network = Inr c"
  proof -
    let ?named = "case aliases c of None \<Rightarrow> [path_join [src, ''aliases.json'']] | Some named \<Rightarrow> named"
    let ?table = "(alias_fold (map (\<lambda>a. load_or_empty env (files w) (path_join [src, a])) ?named))
                    (''__proto__'' := None)"
    let ?g = "\<lambda>content params opts. transpileJS env content (params\<lparr>p_aliases := ?table\<rparr>) opts"
    let ?w0 = "emit (E_readConfig (path_join [src, ''bos.config.json'']) network) w"
    have srcs: "aliasesSrcs_of src (Some c) = ?named"
      by (simp add: aliasesSrcs_of_def)
    have tab: "fst (aliases_loop env src (aliasesSrcs_of src (Some c)) Map.empty ?w0) = ?table"
      unfolding srcs by (simp add: aliases_loop_eq alias_fold_def foldl_object_assign)
    have g: "?g content params opts = transpileJS env content params opts"
      if "p_aliases params = ?table" for content params opts
    proof -
      from that have "params\<lparr>p_aliases := ?table\<rparr> = params" by (cases params) simp
      then show ?thesis by simp
    qed
    have bu: "build_units (env\<lparr>transpileJS := ?g\<rparr>) src dest c ic ?table m v
                = build_units env src dest c ic ?table m v" for ic m v
      by (rule build_units_env) (rule g)
    show ?thesis
      using cfg
      by (simp add: buildApp_def aliases_loop_env updateIpfs_env case_prod_beta tab bu
            cong: option.case_cong sum.case_cong)
  qed
  show ?thesis using a b c d e by blast
qed

theorem aliases_ordered_fold_witness:
  "load_or_empty demo_env (files alias_world) (path_join [''app'', ''one.json'']) = [''a'' \<mapsto> ''1'']
   \<and> load_or_empty demo_env (files alias_world) (path_join [''app'', ''two.json''])
        = [''a'' \<mapsto> ''2'', ''b'' \<mapsto> ''3'']
   \<and> fst (aliases_loop demo_env ''app'' [''one.json'', ''two.json''] Map.empty alias_world)
        = [''a'' \<mapsto> ''2'', ''b'' \<mapsto> ''3'']
   \<and> readConfig demo_env (files demo_world) (path_join [''app'', ''bos.config.json'']) ''mainnet''
        = Inr demo_config
   \<and> E_readJson (path_join [''app'', ''ipfs.json''])
        \<in> set (new_calls demo_world (snd (buildApp demo_env ''app'' ''out'' ''mainnet'' demo_world)))
   \<and> readConfig alias_env (files alias_world) (path_join [''app'', ''bos.config.json'']) ''mainnet''
        = Inr alias_config
   \<and> aliases alias_config = Some [''one.json'', ''missing.json'', ''two.json'']
   \<and> buildApp
        (alias_env\<lparr>transpileJS := (\<lambda>content params opts.
            transpileJS alias_env content
              (params\<lparr>p_aliases :=
                 (alias_fold
                    (map (\<lambda>a. load_or_empty alias_env (files alias_world) (path_join [''app'', a]))
                       [''one.json'', ''missing.json'', ''two.json'']))
                   (''__proto__'' := None)\<rparr>)
              opts)\<rparr>)
        ''app'' ''out'' ''mainnet'' alias_world
      = buildApp alias_env ''app'' ''out'' ''mainnet'' alias_world
   \<and> map_of (files (snd (buildApp alias_env ''app'' ''out'' ''mainnet'' alias_world)))
        ''out/src/widget/w.jsx'' = Some ''2:w1''
   \<and> readConfig default_env (files local_world) (path_join [''.'', ''bos.config.json'']) ''mainnet''
        = Inr demo_config
   \<and> aliases demo_config = None
   \<and> buildApp
        (default_env\<lparr>transpileJS := (\<lambda>content params opts.
            transpileJS default_env content
              (params\<lparr>p_aliases :=
                 (alias_fold
                    (map (\<lambda>a. load_or_empty default_env (files local_world) (path_join [''.'', a]))
                       [path_join [''.'', ''aliases.json'']]))
                   (''__proto__'' := None)\<rparr>)
              opts)\<rparr>)
        ''.'' ''out'' ''mainnet'' local_world
      = buildApp default_env ''.'' ''out'' ''mainnet'' local_world
   \<and> map_of (files (snd (buildApp default_env ''.'' ''out'' ''mainnet'' local_world)))
        ''out/src/widget/w.jsx'' = Some ''1:w1''"
proof -
  have h1: "load_or_empty demo_env (files alias_world) (path_join [''app'', ''one.json''])
      = [''a'' \<mapsto> ''1'']"
    by (simp add: demo_path_one load_or_empty_def alias_world_def demo_env_def demo_parse_def)
  have h2: "load_or_empty demo_env (files alias_world) (path_join [''app'', ''two.json''])
      = [''a'' \<mapsto> ''2'', ''b'' \<mapsto> ''3'']"
    by (auto simp add: demo_path_two load_or_empty_def alias_world_def demo_env_def demo_parse_def
          fun_eq_iff)
  have h3: "readConfig demo_env (files demo_world) (path_join [''app'', ''bos.config.json'']) ''mainnet''
      = Inr demo_config"
    by code_simp
  have h4: "ipfs demo_config = Some \<lparr>uploadApi = Some ''https://upload'', uploadApiHeaders = None,
                   gateway = Some ''https://gateway''\<rparr>"
    by (simp add: demo_config_def)
  have h5: "readConfig alias_env (files alias_world) (path_join [''app'', ''bos.config.json'']) ''mainnet''
      = Inr alias_config"
    by (simp add: alias_env_def)
  have h6: "aliases alias_config = Some [''one.json'', ''missing.json'', ''two.json'']"
    by (simp add: alias_config_def)
  have h7: "map_of (files (snd (buildApp alias_env ''app'' ''out'' ''mainnet'' alias_world)))
        ''out/src/widget/w.jsx'' = Some ''2:w1''"
    by code_simp
  have h8: "readConfig default_env (files local_world) (path_join [''.'', ''bos.config.json'']) ''mainnet''
      = Inr demo_config"
    by (simp add: default_env_def)
  have h9: "aliases demo_config = None"
    by (simp add: demo_config_def)
  have h10: "map_of (files (snd (buildApp default_env ''.'' ''out'' ''mainnet'' local_world)))
        ''out/src/widget/w.jsx'' = Some ''1:w1''"
    by code_simp
  from aliases_ordered_fold[where env = demo_env and src = "''app''" and w = alias_world
      and ?s1.0 = "''one.json''" and ?s2.0 = "''two.json''"] h1 h2
  have a: "fst (aliases_loop demo_env ''app'' [''one.json'', ''two.json''] Map.empty alias_world)
        = [''a'' \<mapsto> ''2'', ''b'' \<mapsto> ''3'']"
    by blast
  from aliases_ordered_fold[where env = demo_env and src = "''app''" and w = demo_world
      and network = "''mainnet''" and c = demo_config and dest = "''out''"] h3 h4
  have b: "E_readJson (path_join [''app'', ''ipfs.json''])
        \<in> set (new_calls demo_world (snd (buildApp demo_env ''app'' ''out'' ''mainnet'' demo_world)))"
    by blast
  from aliases_ordered_fold[where env = alias_env and src = "''app''" and w = alias_world
      and network = "''mainnet''" and c = alias_config and dest = "''out''"] h5
  have c: "buildApp
        (alias_env\<lparr>transpileJS := (\<lambda>content params opts.
            transpileJS alias_env content
              (params\<lparr>p_aliases :=
                 (alias_fold
                    (map (\<lambda>a. load_or_empty alias_env (files alias_world) (path_join [''app'', a]))
                       (case aliases alias_config of
                          None \<Rightarrow> [path_join [''app'', ''aliases.json'']]
                        | Some named \<Rightarrow> named)))
                   (''__proto__'' := None)\<rparr>)
              opts)\<rparr>)
        ''app'' ''out'' ''mainnet'' alias_world
      = buildApp alias_env ''app'' ''out'' ''mainnet'' alias_world"
    by blast
  from aliases_ordered_fold[where env = default_env and src = "''.''" and w = local_world
      and network = "''mainnet''" and c = demo_config and dest = "''out''"] h8
  have d: "buildApp
        (default_env\<lparr>transpileJS := (\<lambda>content params opts.
            transpileJS default_env content
              (params\<lparr>p_aliases :=
                 (alias_fold
                    (map (\<lambda>a. load_or_empty default_env (files local_world) (path_join [''.'', a]))
                       (case aliases demo_config of
                          None \<Rightarrow> [path_join [''.'', ''aliases.json'']]
                        | Some named \<Rightarrow> named)))
                   (''__proto__'' := None)\<rparr>)
              opts)\<rparr>)
        ''.'' ''out'' ''mainnet'' local_world
      = buildApp default_env ''.'' ''out'' ''mainnet'' local_world"
    by blast
  from c have c': "buildApp
        (alias_env\<lparr>transpileJS := (\<lambda>content params opts.
            transpileJS alias_env content
              (params\<lparr>p_aliases :=
                 (alias_fold
                    (map (\<lambda>a. load_or_empty alias_env (files alias_world) (path_join [''app'', a]))
                       [''one.json'', ''missing.json'', ''two.json'']))
                   (''__proto__'' := None)\<rparr>)
              opts)\<rparr>)
        ''app'' ''out'' ''mainnet'' alias_world
      = buildApp alias_env ''app'' ''out'' ''mainnet'' alias_world"
    by (simp only: h6 option.case)
  from d have d': "buildApp
        (default_env\<lparr>transpileJS := (\<lambda>content params opts.
            transpileJS default_env content
              (params\<lparr>p_aliases :=
                 (alias_fold
                    (map (\<lambda>a. load_or_empty default_env (files local_world) (path_join [''.'', a]))
                       [path_join [''.'', ''aliases.json'']]))
                   (''__proto__'' := None)\<rparr>)
              opts)\<rparr>)
        ''.'' ''out'' ''mainnet'' local_world
      = buildApp default_env ''.'' ''out'' ''mainnet'' local_world"
    by (simp only: h9 option.case)
  show ?thesis
    using h1 h2 h3 a b h5 h6 h7 c' h8 h9 h10 d' by blast
qed

theorem aliases_ordered_fold_counterexample:
  "load_or_empty demo_env (files proto_world) (path_join [''app'', ''proto.json'']) ''__proto__''
     = Some ''x''
   \<and> alias_fold [load_or_empty demo_env (files proto_world) (path_join [''app'', ''proto.json''])]
        ''__proto__'' = Some ''x''
   \<and> fst (aliases_loop demo_env ''app'' [''proto.json''] Map.empty proto_world) ''__proto__'' = None
   \<and> fst (aliases_loop demo_env ''app'' [''proto.json''] Map.empty proto_world) ''a'' = Some ''1''"
  by code_simp

text \<open>
  Claim C8. The module name is meant to be the path relative to the module root with
  its trailing extension removed. The code removes the first occurrence of the
  extension's text in the whole path of the file: \<open>data.json.js\<close> is named
  \<open>dataon.js\<close> instead of \<open>data.json\<close>, and under a source root \<open>/home/dev/site.js\<close>
  the module \<open>util.js\<close> is named \<open>../../site/module/util.js\<close> instead of \<open>util\<close>.
\<close>

theorem module_name_strips_first_occurrence:
  "logical_module_name ''app'' ''app/module/data.json.js'' = ''dataon.js''
   \<and> stripped_name (path_relative (path_join [''app'', ''module'']) ''app/module/data.json.js'')
        = ''data.json''
   \<and> logical_module_name ''/home/dev/site.js'' ''/home/dev/site.js/module/util.js''
        = ''../../site/module/util.js''
   \<and> stripped_name (path_relative (path_join [''/home/dev/site.js'', ''module''])
          ''/home/dev/site.js/module/util.js'') = ''util''
   \<and> logical_module_name ''app'' ''app/module/util.js'' = ''util''"
  by code_simp

text \<open>
  Claim C9, amended. When the configuration names no alias sources, the one alias file
  read is \<open>join(s, join(s, "aliases.json"))\<close>, and the alias table is what that file
  holds (a key \<open>__proto__\<close> apart, which the assignment of line 32 does not copy):
  empty when no JSON object can be loaded from that path. (As stated, for every source root, the claim fails for the root
  \<open>.\<close>, where the doubled path is \<open>aliases.json\<close> itself and the file beside the
  configuration is loaded.)
\<close>

theorem default_alias_source:
  assumes "aliases c = None"
  shows "aliasesSrcs_of src (Some c) = [path_join [src, ''aliases.json'']]
       \<and> aliases_loop env src (aliasesSrcs_of src (Some c)) Map.empty w
           = ((load_or_empty env (files w) (path_join [src, path_join [src, ''aliases.json'']]))
                (''__proto__'' := None),
              emit (E_readJson (path_join [src, path_join [src, ''aliases.json'']])) w)
       \<and> (load_or_empty env (files w) (path_join [src, path_join [src, ''aliases.json'']]) = Map.empty
            \<longrightarrow> fst (aliases_loop env src (aliasesSrcs_of src (Some c)) Map.empty w) = Map.empty)"
  using assms
  by (simp add: aliasesSrcs_of_def aliases_loop_eq emit_def object_assign_def)

theorem default_alias_source_witness:
  "aliases demo_config = None
   \<and> map_of (files demo_world) (path_join [''app'', ''aliases.json'']) = Some ''a=1''
   \<and> fst (aliases_loop demo_env ''app'' (aliasesSrcs_of ''app'' (Some demo_config)) Map.empty demo_world)
        = Map.empty
   \<and> new_calls demo_world
        (snd (aliases_loop demo_env ''app'' (aliasesSrcs_of ''app'' (Some demo_config)) Map.empty
           demo_world))
        = [E_readJson ''app/app/aliases.json'']"
proof -
  have h: "aliases demo_config = None" by (simp add: demo_config_def)
  have f: "map_of (files demo_world) (path_join [''app'', ''aliases.json'']) = Some ''a=1''"
    by code_simp
  have e: "load_or_empty demo_env (files demo_world)
             (path_join [''app'', path_join [''app'', ''aliases.json'']]) = Map.empty"
    by (simp add: demo_path_doubled load_or_empty_def demo_world_def)
  from default_alias_source[OF h, of "''app''" demo_env demo_world]
  have eq: "aliases_loop demo_env ''app'' (aliasesSrcs_of ''app'' (Some demo_config)) Map.empty demo_world
           = ((load_or_empty demo_env (files demo_world)
                  (path_join [''app'', path_join [''app'', ''aliases.json'']]))
                (''__proto__'' := None),
              emit (E_readJson (path_join [''app'', path_join [''app'', ''aliases.json'']])) demo_world)"
    by blast
  show ?thesis
    unfolding eq using h f e by (simp add: demo_path_doubled)
qed

theorem default_alias_source_counterexample:
  "path_join [''.'', path_join [''.'', ''aliases.json'']] = path_join [''.'', ''aliases.json'']
   \<and> aliases demo_config = None
   \<and> map_of (files here_world) (path_join [''.'', ''aliases.json'']) = Some ''a=1''
   \<and> fst (aliases_loop demo_env ''.'' (aliasesSrcs_of ''.'' (Some demo_config)) Map.empty here_world)
        ''a'' = Some ''1''"
  by code_simp

text \<open>
  Claim C10. In every build, each path written by the module batch ends in
  \<open>.module.js\<close> and each path written by the widget batch ends in \<open>.jsx\<close>, so no path
  is written by both; the output paths of a module file and of a widget file differ,
  whatever the two files are.
\<close>

theorem outputs_never_collide:
  assumes run: "buildApp env src dest network w = (r, w')"
  shows "(\<forall>p. E_outputFile Module p \<in> set (new_calls w w') \<longrightarrow> endsWith p ''.module.js'')
       \<and> (\<forall>p. E_outputFile Widget p \<in> set (new_calls w w') \<longrightarrow> endsWith p ''.jsx'')
       \<and> (\<forall>p q. E_outputFile Module p \<in> set (new_calls w w') \<longrightarrow>
                 E_outputFile Widget q \<in> set (new_calls w w') \<longrightarrow> p \<noteq> q)
       \<and> new_file_path Module src dest f \<noteq> new_file_path Widget src dest g"
proof -
  have m: "endsWith p ''.module.js''" if "E_outputFile Module p \<in> set (new_calls w w')" for p
  proof -
    from buildApp_output_origin[OF run that] obtain u where "p = new_file_path Module src dest u"
      by blast
    with new_file_path_suffix[of Module src dest u] show ?thesis by (simp add: endsWith_def)
  qed
  have x: "endsWith q ''.jsx''" if "E_outputFile Widget q \<in> set (new_calls w w')" for q
  proof -
    from buildApp_output_origin[OF run that] obtain u where "q = new_file_path Widget src dest u"
      by blast
    with new_file_path_suffix[of Widget src dest u] show ?thesis by (simp add: endsWith_def)
  qed
  have d: "p \<noteq> q" if "E_outputFile Module p \<in> set (new_calls w w')"
    "E_outputFile Widget q \<in> set (new_calls w w')" for p q
  proof -
    from buildApp_output_origin[OF run that(1)] obtain u where "p = new_file_path Module src dest u"
      by blast
    moreover from buildApp_output_origin[OF run that(2)] obtain v where "q = new_file_path Widget src dest v"
      by blast
    ultimately show ?thesis using new_file_path_distinct[of src dest u v] by simp
  qed
  show ?thesis using m x d new_file_path_distinct[of src dest f g] by blast
qed

theorem outputs_never_collide_witness:
  "E_outputFile Module ''out/src/widget/util.module.js''
     \<in> set (new_calls demo_world (snd (buildApp demo_env ''app'' ''out'' ''mainnet'' demo_world)))
   \<and> E_outputFile Widget ''out/src/widget/util.jsx''
     \<in> set (new_calls demo_world (snd (buildApp demo_env ''app'' ''out'' ''mainnet'' demo_world)))
   \<and> endsWith ''out/src/widget/util.module.js'' ''.module.js''
   \<and> endsWith ''out/src/widget/util.jsx'' ''.jsx''
   \<and> ''out/src/widget/util.module.js'' \<noteq> ''out/src/widget/util.jsx''"
proof -
  let ?run = "buildApp demo_env ''app'' ''out'' ''mainnet'' demo_world"
  have m: "E_outputFile Module ''out/src/widget/util.module.js''
     \<in> set (new_calls demo_world (snd ?run))" by code_simp
  have x: "E_outputFile Widget ''out/src/widget/util.jsx''
     \<in> set (new_calls demo_world (snd ?run))" by code_simp
  from outputs_never_collide[OF run_collapse[of ?run]] m x show ?thesis by blast
qed

end
